theory Spec2Isabelle
  imports Main "HOL-Library.Char_ord" "HOL-Library.List_Lexorder"
begin

section \<open>Python values, dictionaries and exceptions\<close>

text \<open>
  A Python \<open>bytes\<close> value is a list of 8-bit characters; a \<open>str\<close> is a \<open>string\<close>.
  The values that travel through \<open>evm/p2p/les.py\<close> are dynamically typed, so they are
  one datatype: integers (a \<open>bool\<close> is the integer 0 or 1, as in Python), \<open>str\<close>,
  \<open>bytes\<close>, sequences (the model does not tell a list from a tuple) and instances of
  \<open>rlp.Serializable\<close> classes, given by their attributes in the order the constructor
  set them.
\<close>

type_synonym bytes = "char list"

datatype pyval =
    PInt int
  | PStr string
  | PBytes bytes
  | PList "pyval list"
  | PObj "(string \<times> pyval) list"

text \<open>
  Modelled from the spec: the disconnect reason codes. \<open>evm.p2p.p2p_proto.DisconnectReason\<close>
  is not under src/; the source uses its member \<open>other\<close>, the spec names the reasons
  NetworkMismatch and GenesisMismatch.
\<close>

datatype DisconnectReason = NetworkMismatch | GenesisMismatch | other

text \<open>
  Every exception the code can raise is a value. \<open>ValueError\<close> keeps the format string
  and its arguments; the exceptions of the \<open>rlp\<close> library keep no detail.
\<close>

datatype error =
    KeyError string
  | ValueError string "int list"
  | AttributeError
  | TypeError
  | UnicodeDecodeError
  | HandshakeFailure DisconnectReason
  | SerializationError
  | DeserializationError
  | EncodingError
  | DecodingError

text \<open>
  A \<open>dict\<close> is an association list in insertion order. \<open>d[k]\<close> raises \<open>KeyError\<close> on a
  missing key; \<open>d[k] = v\<close> keeps the place of a key that is already there.
\<close>

type_synonym 'v dict = "(string \<times> 'v) list"

definition getitem :: "'v dict \<Rightarrow> string \<Rightarrow> error + 'v" where
  "getitem d k = (case map_of d k of None \<Rightarrow> Inl (KeyError k) | Some v \<Rightarrow> Inr v)"

fun setitem :: "'v dict \<Rightarrow> string \<Rightarrow> 'v \<Rightarrow> 'v dict" where
  "setitem [] k v = [(k, v)]"
| "setitem ((k', v') # d) k v = (if k' = k then (k, v) # d else (k', v') # setitem d k v)"

section \<open>The codec primitives\<close>

text \<open>
  Modelled from the spec: the generic codec primitives (the \<open>rlp\<close> library and its
  \<open>sedes\<close> objects), which \<open>les.py\<close> imports and which are not under src/. The spec
  takes them as given: unsigned integers in big-endian minimal-length form, byte strings,
  ordered lists and structured records, to and from a canonical binary form. The binary
  form here is RLP.
\<close>

subsection \<open>Big-endian integers\<close>

fun be_digits :: "nat \<Rightarrow> bytes" where
  "be_digits n = (if n = 0 then [] else be_digits (n div 256) @ [char_of (n mod 256)])"

declare be_digits.simps [simp del]

definition int_to_big_endian :: "nat \<Rightarrow> bytes" where
  "int_to_big_endian n = (if n = 0 then [CHR 0x00] else be_digits n)"

fun be_value :: "nat \<Rightarrow> bytes \<Rightarrow> nat" where
  "be_value acc [] = acc"
| "be_value acc (c # cs) = be_value (acc * 256 + of_char c) cs"

definition big_endian_to_int :: "bytes \<Rightarrow> nat" where
  "big_endian_to_int bs = be_value 0 bs"

subsection \<open>The serial form and its bytes\<close>

text \<open>
  The serial form of a value is a byte string or a sequence of serial forms:
  \<open>serializable\<close> is the test of the \<open>raw\<close> codec. \<open>encode_raw\<close> writes a serial form
  as bytes; it raises \<open>EncodingError\<close> on anything else and on a payload of \<open>256 ^ 8\<close>
  bytes or more.
\<close>

fun serializable :: "pyval \<Rightarrow> bool" where
  "serializable (PBytes b) = True"
| "serializable (PList vs) = list_all serializable vs"
| "serializable _ = False"

definition length_prefix :: "nat \<Rightarrow> nat \<Rightarrow> bytes option" where
  "length_prefix len offset =
     (if len < 56 then Some [char_of (offset + len)]
      else if len < 256 ^ 8 then
        Some (char_of (offset + 56 - 1 + length (int_to_big_endian len)) # int_to_big_endian len)
      else None)"

definition with_prefix :: "nat \<Rightarrow> bytes \<Rightarrow> error + bytes" where
  "with_prefix offset payload =
     (case length_prefix (length payload) offset of
        None \<Rightarrow> Inl EncodingError
      | Some prefix \<Rightarrow> Inr (prefix @ payload))"

fun encode_raw :: "pyval \<Rightarrow> error + bytes"
  and encode_all :: "pyval list \<Rightarrow> error + bytes" where
  "encode_raw (PBytes b) =
     (if length b = 1 \<and> (of_char (hd b) :: nat) < 128 then Inr b else with_prefix 128 b)"
| "encode_raw (PList xs) =
     (case encode_all xs of Inl e \<Rightarrow> Inl e | Inr payload \<Rightarrow> with_prefix 192 payload)"
| "encode_raw (PInt _) = Inl EncodingError"
| "encode_raw (PStr _) = Inl EncodingError"
| "encode_raw (PObj _) = Inl EncodingError"
| "encode_all [] = Inr []"
| "encode_all (x # xs) =
     (case encode_raw x of Inl e \<Rightarrow> Inl e | Inr b \<Rightarrow>
      case encode_all xs of Inl e \<Rightarrow> Inl e | Inr bs \<Rightarrow> Inr (b @ bs))"

text \<open>
  Decoding reads the length prefix of an item, cuts the payload off the bytes that follow
  and decodes a list payload item by item. A prefix that is not the shortest one for its
  payload, and input that ends before the payload does, are rejected with
  \<open>DecodingError\<close>.
\<close>

datatype kind = KStr | KList

definition long_length :: "kind \<Rightarrow> nat \<Rightarrow> bytes \<Rightarrow> error + (kind \<times> nat \<times> bytes)" where
  "long_length k ll rest =
     (if length rest < ll then Inl DecodingError
      else if take 1 rest = [CHR 0x00] then Inl DecodingError
      else
        let l = big_endian_to_int (take ll rest) in
        if l < 56 then Inl DecodingError else Inr (k, l, drop ll rest))"

fun consume_length_prefix :: "bytes \<Rightarrow> error + (kind \<times> nat \<times> bytes)" where
  "consume_length_prefix [] = Inl DecodingError"
| "consume_length_prefix (c # rest) =
     (let b0 = (of_char c :: nat) in
      if b0 < 128 then Inr (KStr, 1, c # rest)
      else if b0 < 128 + 56 then
        (if b0 - 128 = 1 \<and> (case rest of [] \<Rightarrow> True | d # _ \<Rightarrow> (of_char d :: nat) < 128)
         then Inl DecodingError
         else Inr (KStr, b0 - 128, rest))
      else if b0 < 192 then long_length KStr (b0 - 183) rest
      else if b0 < 192 + 56 then Inr (KList, b0 - 192, rest)
      else long_length KList (b0 - 247) rest)"

definition split_item :: "bytes \<Rightarrow> error + (kind \<times> bytes \<times> bytes)" where
  "split_item bs =
     (case consume_length_prefix bs of
        Inl e \<Rightarrow> Inl e
      | Inr (k, l, rest) \<Rightarrow>
          if length rest < l then Inl DecodingError else Inr (k, take l rest, drop l rest))"

lemma long_length_shorter:
  "long_length k ll rest = Inr (k', l, rest') \<Longrightarrow> length rest' \<le> length rest \<and> k' = k"
  by (auto simp: long_length_def Let_def split: if_splits)

lemma consume_length_prefix_shorter:
  "consume_length_prefix bs = Inr (k, l, rest) \<Longrightarrow>
     length rest \<le> length bs \<and> (k = KList \<longrightarrow> length rest < length bs) \<and>
     (length rest = length bs \<longrightarrow> l = 1)"
  by (cases bs) (auto simp: Let_def split: if_splits dest: long_length_shorter)

lemma split_item_shorter:
  assumes "split_item bs = Inr (k, payload, rest)"
  shows "length rest < length bs" and "k = KList \<Longrightarrow> length payload < length bs"
proof -
  obtain l rest0 where c: "consume_length_prefix bs = Inr (k, l, rest0)"
    and l: "l \<le> length rest0" and p: "payload = take l rest0" and r: "rest = drop l rest0"
    using assms by (auto simp: split_item_def split: sum.splits prod.splits if_splits)
  note s = consume_length_prefix_shorter [OF c]
  show "length rest < length bs"
  proof (cases "length rest0 = length bs")
    case True
    with s have "l = 1" by simp
    with l r True show ?thesis by simp
  next
    case False
    with s r show ?thesis by auto
  qed
  show "length payload < length bs" if "k = KList"
    using that s p by auto
qed

function decode_item :: "kind \<Rightarrow> bytes \<Rightarrow> error + pyval"
  and decode_items :: "bytes \<Rightarrow> error + pyval list" where
  "decode_item KStr payload = Inr (PBytes payload)"
| "decode_item KList payload =
     (case decode_items payload of Inl e \<Rightarrow> Inl e | Inr xs \<Rightarrow> Inr (PList xs))"
| "decode_items bs =
     (if bs = [] then Inr []
      else
        case split_item bs of
          Inl e \<Rightarrow> Inl e
        | Inr (k, payload, rest) \<Rightarrow>
            case decode_item k payload of Inl e \<Rightarrow> Inl e | Inr x \<Rightarrow>
            case decode_items rest of Inl e \<Rightarrow> Inl e | Inr xs \<Rightarrow> Inr (x # xs))"
  by pat_completeness auto
termination
proof (relation "measure (\<lambda>a. case a of
          Inl (k, payload) \<Rightarrow> (case k of KStr \<Rightarrow> 0 | KList \<Rightarrow> 2 * length payload + 1)
        | Inr bs \<Rightarrow> 2 * length bs)", goal_cases)
  case 1
  show ?case by simp
next
  case (2 payload)
  show ?case by simp
next
  case (3 bs x2 k p payload rest)
  then show ?case
    using split_item_shorter [of bs k payload rest]
    by (cases k) auto
next
  case (4 bs x2 k p payload rest x)
  then show ?case
    using split_item_shorter(1) [of bs k payload rest] by simp
qed

declare decode_items.simps [simp del]

definition rlp_decode :: "bytes \<Rightarrow> error + pyval" where
  "rlp_decode bs =
     (case split_item bs of
        Inl e \<Rightarrow> Inl e
      | Inr (k, payload, rest) \<Rightarrow> if rest \<noteq> [] then Inl DecodingError else decode_item k payload)"


subsection \<open>The codecs (\<open>rlp.sedes\<close>)\<close>

text \<open>
  \<open>List elements strict\<close> is \<open>sedes.List(elements, strict)\<close>; \<open>Serializable flds\<close> is
  a class derived from \<open>rlp.Serializable\<close> with the given \<open>fields\<close>, used as the codec of
  its instances. A value that a codec cannot take is rejected with \<open>SerializationError\<close>
  (encoding) or \<open>DeserializationError\<close> (decoding; the spec's FieldDecodeError and
  SchemaMismatch).
\<close>

datatype sedes =
    big_endian_int
  | binary
  | raw
  | CountableList sedes
  | List "sedes list" bool
  | Serializable "(string \<times> sedes) list"

text \<open>
  \<open>binary\<close> takes a \<open>str\<close> as well as \<open>bytes\<close> and encodes it as UTF-8; the model
  carries code points below 256.
\<close>

definition str_to_bytes :: "string \<Rightarrow> bytes" where
  "str_to_bytes s =
     concat (map (\<lambda>c. if (of_char c :: nat) < 128 then [c]
                        else [char_of (192 + (of_char c :: nat) div 64),
                              char_of (128 + (of_char c :: nat) mod 64)]) s)"

text \<open>\<open>getattr\<close> for each field name, in order; \<open>None\<close> when an attribute is missing.\<close>

fun field_values :: "string list \<Rightarrow> pyval dict \<Rightarrow> pyval list option" where
  "field_values [] attrs = Some []"
| "field_values (name # names) attrs =
     (case map_of attrs name of
        None \<Rightarrow> None
      | Some v \<Rightarrow> (case field_values names attrs of None \<Rightarrow> None | Some vs \<Rightarrow> Some (v # vs)))"

fun serialize :: "sedes \<Rightarrow> pyval \<Rightarrow> error + pyval"
  and serialize_each :: "sedes \<Rightarrow> pyval list \<Rightarrow> error + pyval list"
  and serialize_zip :: "sedes list \<Rightarrow> pyval list \<Rightarrow> error + pyval list"
  and serialize_fields :: "(string \<times> sedes) list \<Rightarrow> pyval list \<Rightarrow> error + pyval list" where
  "serialize big_endian_int obj =
     (case obj of
        PInt n \<Rightarrow> if n < 0 then Inl SerializationError else Inr (PBytes (be_digits (nat n)))
      | _ \<Rightarrow> Inl SerializationError)"
| "serialize binary obj =
     (case obj of
        PBytes b \<Rightarrow> Inr (PBytes b)
      | PStr s \<Rightarrow> Inr (PBytes (str_to_bytes s))
      | _ \<Rightarrow> Inl SerializationError)"
| "serialize raw obj = (if serializable obj then Inr obj else Inl SerializationError)"
| "serialize (CountableList element_sedes) obj =
     (case obj of
        PList vs \<Rightarrow>
          (case serialize_each element_sedes vs of Inl e \<Rightarrow> Inl e | Inr ts \<Rightarrow> Inr (PList ts))
      | _ \<Rightarrow> Inl SerializationError)"
| "serialize (List elements strict) obj =
     (case obj of
        PList vs \<Rightarrow>
          if (strict \<and> length elements \<noteq> length vs) \<or> length elements < length vs
          then Inl SerializationError
          else (case serialize_zip elements vs of Inl e \<Rightarrow> Inl e | Inr ts \<Rightarrow> Inr (PList ts))
      | _ \<Rightarrow> Inl SerializationError)"
| "serialize (Serializable flds) obj =
     (case obj of
        PObj attrs \<Rightarrow>
          (case field_values (map fst flds) attrs of
             None \<Rightarrow> Inl SerializationError
           | Some vs \<Rightarrow>
               case serialize_fields flds vs of Inl e \<Rightarrow> Inl e | Inr ts \<Rightarrow> Inr (PList ts))
      | _ \<Rightarrow> Inl SerializationError)"
| "serialize_each element_sedes [] = Inr []"
| "serialize_each element_sedes (v # vs) =
     (case serialize element_sedes v of Inl e \<Rightarrow> Inl e | Inr t \<Rightarrow>
      case serialize_each element_sedes vs of Inl e \<Rightarrow> Inl e | Inr ts \<Rightarrow> Inr (t # ts))"
| "serialize_zip (s # ss) (v # vs) =
     (case serialize s v of Inl e \<Rightarrow> Inl e | Inr t \<Rightarrow>
      case serialize_zip ss vs of Inl e \<Rightarrow> Inl e | Inr ts \<Rightarrow> Inr (t # ts))"
| "serialize_zip _ _ = Inr []"
| "serialize_fields ((name, s) # flds) (v # vs) =
     (case serialize s v of Inl e \<Rightarrow> Inl e | Inr t \<Rightarrow>
      case serialize_fields flds vs of Inl e \<Rightarrow> Inl e | Inr ts \<Rightarrow> Inr (t # ts))"
| "serialize_fields _ _ = Inr []"

fun deserialize :: "sedes \<Rightarrow> pyval \<Rightarrow> error + pyval"
  and deserialize_each :: "sedes \<Rightarrow> pyval list \<Rightarrow> error + pyval list"
  and deserialize_zip :: "sedes list \<Rightarrow> pyval list \<Rightarrow> error + pyval list"
  and deserialize_fields :: "(string \<times> sedes) list \<Rightarrow> pyval list \<Rightarrow> error + pyval dict" where
  "deserialize big_endian_int serial =
     (case serial of
        PBytes b \<Rightarrow>
          if take 1 b = [CHR 0x00] then Inl DeserializationError
          else Inr (PInt (int (big_endian_to_int b)))
      | _ \<Rightarrow> Inl DeserializationError)"
| "deserialize binary serial =
     (case serial of PBytes b \<Rightarrow> Inr (PBytes b) | _ \<Rightarrow> Inl DeserializationError)"
| "deserialize raw serial = Inr serial"
| "deserialize (CountableList element_sedes) serial =
     (case serial of
        PList ts \<Rightarrow>
          (case deserialize_each element_sedes ts of Inl e \<Rightarrow> Inl e | Inr vs \<Rightarrow> Inr (PList vs))
      | _ \<Rightarrow> Inl DeserializationError)"
| "deserialize (List elements strict) serial =
     (case serial of
        PList ts \<Rightarrow>
          if length elements < length ts \<or> (strict \<and> length ts \<noteq> length elements)
          then Inl DeserializationError
          else (case deserialize_zip elements ts of Inl e \<Rightarrow> Inl e | Inr vs \<Rightarrow> Inr (PList vs))
      | _ \<Rightarrow> Inl DeserializationError)"
| "deserialize (Serializable flds) serial =
     (case serial of
        PList ts \<Rightarrow>
          if length ts \<noteq> length flds then Inl DeserializationError
          else (case deserialize_fields flds ts of Inl e \<Rightarrow> Inl e
                | Inr attrs \<Rightarrow> Inr (PObj attrs))
      | _ \<Rightarrow> Inl DeserializationError)"
| "deserialize_each element_sedes [] = Inr []"
| "deserialize_each element_sedes (t # ts) =
     (case deserialize element_sedes t of Inl e \<Rightarrow> Inl e | Inr v \<Rightarrow>
      case deserialize_each element_sedes ts of Inl e \<Rightarrow> Inl e | Inr vs \<Rightarrow> Inr (v # vs))"
| "deserialize_zip (s # ss) (t # ts) =
     (case deserialize s t of Inl e \<Rightarrow> Inl e | Inr v \<Rightarrow>
      case deserialize_zip ss ts of Inl e \<Rightarrow> Inl e | Inr vs \<Rightarrow> Inr (v # vs))"
| "deserialize_zip _ _ = Inr []"
| "deserialize_fields ((name, s) # flds) (t # ts) =
     (case deserialize s t of Inl e \<Rightarrow> Inl e | Inr v \<Rightarrow>
      case deserialize_fields flds ts of Inl e \<Rightarrow> Inl e | Inr attrs \<Rightarrow> Inr ((name, v) # attrs))"
| "deserialize_fields _ _ = Inr []"

text \<open>\<open>rlp.encode(obj, sedes)\<close> and \<open>rlp.decode(rlp, sedes)\<close>.\<close>

definition rlp_encode :: "pyval \<Rightarrow> sedes \<Rightarrow> error + bytes" where
  "rlp_encode obj s = (case serialize s obj of Inl e \<Rightarrow> Inl e | Inr item \<Rightarrow> encode_raw item)"

definition rlp_decode_sedes :: "bytes \<Rightarrow> sedes \<Rightarrow> error + pyval" where
  "rlp_decode_sedes bs s =
     (case rlp_decode bs of Inl e \<Rightarrow> Inl e | Inr item \<Rightarrow> deserialize s item)"

text \<open>
  The type domain of a codec: the values it encodes and gives back unchanged. An integer
  field takes the non-negative integers, a bytes field takes \<open>bytes\<close>, \<open>raw\<close> takes every
  serial form, an instance of a \<open>Serializable\<close> class has exactly the attributes its
  fields name, in their order.
\<close>

fun in_domain :: "sedes \<Rightarrow> pyval \<Rightarrow> bool"
  and in_domain_each :: "sedes \<Rightarrow> pyval list \<Rightarrow> bool"
  and in_domain_zip :: "sedes list \<Rightarrow> pyval list \<Rightarrow> bool"
  and in_domain_fields :: "(string \<times> sedes) list \<Rightarrow> pyval list \<Rightarrow> bool" where
  "in_domain big_endian_int v = (case v of PInt n \<Rightarrow> 0 \<le> n | _ \<Rightarrow> False)"
| "in_domain binary v = (case v of PBytes b \<Rightarrow> True | _ \<Rightarrow> False)"
| "in_domain raw v = serializable v"
| "in_domain (CountableList s) v = (case v of PList vs \<Rightarrow> in_domain_each s vs | _ \<Rightarrow> False)"
| "in_domain (List ss strict) v =
     (case v of
        PList vs \<Rightarrow>
          (if strict then length vs = length ss else length vs \<le> length ss) \<and>
          in_domain_zip ss vs
      | _ \<Rightarrow> False)"
| "in_domain (Serializable flds) v =
     (case v of
        PObj attrs \<Rightarrow>
          map fst attrs = map fst flds \<and> distinct (map fst flds) \<and>
          in_domain_fields flds (map snd attrs)
      | _ \<Rightarrow> False)"
| "in_domain_each s [] = True"
| "in_domain_each s (v # vs) = (in_domain s v \<and> in_domain_each s vs)"
| "in_domain_zip (s # ss) (v # vs) = (in_domain s v \<and> in_domain_zip ss vs)"
| "in_domain_zip _ _ = True"
| "in_domain_fields ((name, s) # flds) (v # vs) = (in_domain s v \<and> in_domain_fields flds vs)"
| "in_domain_fields _ _ = True"

section \<open>Commands and the transport\<close>

text \<open>
  Modelled from the spec: the base class \<open>evm.p2p.protocol.Command\<close>, which is not under
  src/. A command has its code, its \<open>decode_strict\<close> flag and its \<open>structure\<close>: an
  ordered list of named fields with their codecs (\<open>Fields\<close>), or a countable list of one
  codec (\<open>Countable\<close>). A decoded message is a dictionary for the first and a sequence for
  the second.
\<close>

datatype schema = Fields "(string \<times> sedes) list" | Countable sedes

datatype msg = MDict "pyval dict" | MList "pyval list"

record command =
  cmd_id :: int
  decode_strict :: bool
  cmd_structure :: schema

text \<open>
  Modelled from the spec: \<open>Command.encode_payload\<close>. A dictionary gives the field values
  in the order of the structure, which are encoded as a list of the field codecs; a
  sequence is encoded by the countable list.
\<close>

definition Command_encode_payload :: "command \<Rightarrow> msg \<Rightarrow> error + bytes" where
  "Command_encode_payload c data =
     (case cmd_structure c of
        Countable element_sedes \<Rightarrow>
          (case data of
             MDict d \<Rightarrow>
               Inl (ValueError ''Command.structure must be a list when data is a dict'' [])
           | MList l \<Rightarrow> rlp_encode (PList l) (CountableList element_sedes))
      | Fields flds \<Rightarrow>
          (case data of
             MDict d \<Rightarrow>
               (case field_values (map fst flds) d of
                  None \<Rightarrow>
                    Inl (ValueError ''Keys in data dict do not match expected keys'' [])
                | Some l \<Rightarrow> rlp_encode (PList l) (List (map snd flds) True))
           | MList l \<Rightarrow> rlp_encode (PList l) (List (map snd flds) True)))"

text \<open>
  Modelled from the spec: \<open>Command.decode_payload\<close>. The wire data is decoded by the
  countable list, or by the list of the field codecs (strict or not as \<open>decode_strict\<close>
  says) and then paired with the field names.
\<close>

definition Command_decode_payload :: "command \<Rightarrow> bytes \<Rightarrow> error + msg" where
  "Command_decode_payload c rlp_data =
     (case cmd_structure c of
        Countable element_sedes \<Rightarrow>
          (case rlp_decode_sedes rlp_data (CountableList element_sedes) of
             Inl e \<Rightarrow> Inl e
           | Inr (PList l) \<Rightarrow> Inr (MList l)
           | Inr _ \<Rightarrow> Inl TypeError)
      | Fields flds \<Rightarrow>
          (case rlp_decode_sedes rlp_data (List (map snd flds) (decode_strict c)) of
             Inl e \<Rightarrow> Inl e
           | Inr (PList l) \<Rightarrow> Inr (MDict (zip (map fst flds) l))
           | Inr _ \<Rightarrow> Inl TypeError))"

text \<open>
  Modelled from the spec: \<open>Command.encode\<close> and \<open>Protocol.send\<close>. The wire form of a
  message is its command code, offset into the subprotocol's id space, and its payload;
  the transport is the list of the messages handed to it. \<open>Command_encode\<close> takes the
  result of the command's own \<open>encode_payload\<close>.
\<close>

definition Command_encode :: "command \<Rightarrow> int \<Rightarrow> error + bytes \<Rightarrow> error + int \<times> bytes" where
  "Command_encode c offset payload =
     (case payload of Inl e \<Rightarrow> Inl e | Inr body \<Rightarrow> Inr (offset + cmd_id c, body))"

section \<open>Head summary\<close>

record HeadInfo =
  block_number :: pyval
  block_hash :: pyval
  total_difficulty :: pyval
  reorg_depth :: pyval

section \<open>The Status message\<close>

definition Status :: command where
  "Status = \<lparr>cmd_id = 0, decode_strict = False,
             cmd_structure = Countable (List [binary, raw] True)\<rparr>"

text \<open>\<open>Status.items_sedes\<close>: the codec of each known key; \<open>None\<close> for the two flags.\<close>

definition items_sedes :: "sedes option dict" where
  "items_sedes =
     [(''protocolVersion'', Some big_endian_int),
      (''networkId'', Some big_endian_int),
      (''headTd'', Some big_endian_int),
      (''headHash'', Some binary),
      (''headNum'', Some big_endian_int),
      (''genesisHash'', Some binary),
      (''serveHeaders'', None),
      (''serveChainSince'', Some big_endian_int),
      (''serveStateSince'', Some big_endian_int),
      (''txRelay'', None),
      (''flowControl/BL'', Some big_endian_int),
      (''flowControl/MRC'',
         Some (CountableList (List [big_endian_int, big_endian_int, big_endian_int] True))),
      (''flowControl/MRR'', Some big_endian_int)]"

text \<open>\<open>key.decode('ascii')\<close>: every byte must be below 128.\<close>

definition decode_ascii :: "bytes \<Rightarrow> error + string" where
  "decode_ascii b =
     (if list_all (\<lambda>c. (of_char c :: nat) < 128) b then Inr b else Inl UnicodeDecodeError)"

text \<open>
  The body of the loop of \<open>Status.decode_payload\<close> on one item of the outer list: the
  pair it yields, \<open>None\<close> when it skips the item (\<open>continue\<close>), or the exception it
  raises. Unpacking an item that is not a pair whose key is \<open>bytes\<close> raises.
\<close>

definition Status_decode_item :: "pyval \<Rightarrow> error + (string \<times> pyval) option" where
  "Status_decode_item item =
     (case item of
        PList [PBytes key, val] \<Rightarrow>
          (case decode_ascii key of
             Inl e \<Rightarrow> Inl e
           | Inr k \<Rightarrow>
               (case map_of items_sedes k of
                  None \<Rightarrow> Inr None
                | Some item_sedes \<Rightarrow>
                    (case item_sedes of
                       Some s \<Rightarrow>
                         (case deserialize s val of Inl e \<Rightarrow> Inl e | Inr v \<Rightarrow> Inr (Some (k, v)))
                     | None \<Rightarrow> Inr (Some (k, val)))))
      | _ \<Rightarrow> Inl TypeError)"

text \<open>The loop: the pairs yielded, in order, or the first exception.\<close>

fun Status_decode_pairs :: "pyval list \<Rightarrow> error + (string \<times> pyval) list" where
  "Status_decode_pairs [] = Inr []"
| "Status_decode_pairs (item # data) =
     (case Status_decode_item item of
        Inl e \<Rightarrow> Inl e
      | Inr y \<Rightarrow>
          (case Status_decode_pairs data of
             Inl e \<Rightarrow> Inl e
           | Inr pairs \<Rightarrow> Inr (case y of None \<Rightarrow> pairs | Some kv \<Rightarrow> kv # pairs)))"

text \<open>The decorator \<open>to_dict\<close>: \<open>dict(pairs)\<close>, a later pair overwrites an earlier one.\<close>

definition to_dict :: "(string \<times> 'v) list \<Rightarrow> 'v dict" where
  "to_dict pairs = foldl (\<lambda>d (k, v). setitem d k v) [] pairs"

text \<open>\<open>Status.decode_payload\<close>.\<close>

definition Status_decode_payload :: "bytes \<Rightarrow> error + pyval dict" where
  "Status_decode_payload rlp_data =
     (case Command_decode_payload Status rlp_data of
        Inl e \<Rightarrow> Inl e
      | Inr (MList data) \<Rightarrow>
          (case Status_decode_pairs data of
             Inl e \<Rightarrow> Inl e
           | Inr pairs \<Rightarrow> Inr (to_dict pairs))
      | Inr (MDict d) \<Rightarrow> Inl TypeError)"

text \<open>
  The list comprehension of \<open>Status.encode_payload\<close> over the sorted items: a key that
  \<open>items_sedes\<close> does not have raises \<open>KeyError\<close>, a key whose entry is \<open>None\<close> raises
  \<open>AttributeError\<close> (\<open>None\<close> has no \<open>serialize\<close>).
\<close>

fun Status_serialize_items :: "pyval dict \<Rightarrow> error + pyval list" where
  "Status_serialize_items [] = Inr []"
| "Status_serialize_items ((key, val) # items) =
     (case map_of items_sedes key of
        None \<Rightarrow> Inl (KeyError key)
      | Some None \<Rightarrow> Inl AttributeError
      | Some (Some s) \<Rightarrow>
          (case serialize s val of
             Inl e \<Rightarrow> Inl e
           | Inr t \<Rightarrow>
               (case Status_serialize_items items of
                  Inl e \<Rightarrow> Inl e
                | Inr response \<Rightarrow> Inr (PList [PStr key, t] # response))))"

text \<open>
  \<open>Status.encode_payload\<close>. The keys of a dictionary are distinct, so sorting its items
  sorts them by key.
\<close>

definition Status_encode_payload :: "pyval dict \<Rightarrow> error + bytes" where
  "Status_encode_payload data =
     (case Status_serialize_items (sort_key fst data) of
        Inl e \<Rightarrow> Inl e
      | Inr response \<Rightarrow> Command_encode_payload Status (MList response))"

text \<open>\<open>Status.as_head_info\<close>: the keyword arguments are evaluated in the order written.\<close>

definition Status_as_head_info :: "pyval dict \<Rightarrow> error + HeadInfo" where
  "Status_as_head_info decoded =
     (case getitem decoded ''headNum'' of Inl e \<Rightarrow> Inl e | Inr n \<Rightarrow>
      case getitem decoded ''headHash'' of Inl e \<Rightarrow> Inl e | Inr h \<Rightarrow>
      case getitem decoded ''headTd'' of Inl e \<Rightarrow> Inl e | Inr td \<Rightarrow>
        Inr \<lparr>block_number = n, block_hash = h, total_difficulty = td, reorg_depth = PInt 0\<rparr>)"

section \<open>The fixed-schema messages\<close>

definition Announce :: command where
  "Announce = \<lparr>cmd_id = 1, decode_strict = True,
     cmd_structure = Fields
       [(''head_hash'', binary),
        (''head_number'', big_endian_int),
        (''head_td'', big_endian_int),
        (''reorg_depth'', big_endian_int),
        (''params'', CountableList (List [binary, raw] True))]\<rparr>"

text \<open>\<open>Announce.as_head_info\<close>.\<close>

definition Announce_as_head_info :: "pyval dict \<Rightarrow> error + HeadInfo" where
  "Announce_as_head_info decoded =
     (case getitem decoded ''head_number'' of Inl e \<Rightarrow> Inl e | Inr n \<Rightarrow>
      case getitem decoded ''head_hash'' of Inl e \<Rightarrow> Inl e | Inr h \<Rightarrow>
      case getitem decoded ''head_td'' of Inl e \<Rightarrow> Inl e | Inr td \<Rightarrow>
      case getitem decoded ''reorg_depth'' of Inl e \<Rightarrow> Inl e | Inr r \<Rightarrow>
        Inr \<lparr>block_number = n, block_hash = h, total_difficulty = td, reorg_depth = r\<rparr>)"

text \<open>
  The class \<open>GetBlockHeadersQuery\<close> as a codec, and its constructor. \<open>reverse\<close> is a
  \<open>bool\<close>, the integer 1 or 0.
\<close>

definition GetBlockHeadersQuery_sedes :: sedes where
  "GetBlockHeadersQuery_sedes =
     Serializable
       [(''block'', big_endian_int),
        (''max_headers'', big_endian_int),
        (''skip'', big_endian_int),
        (''reverse'', big_endian_int)]"

definition GetBlockHeadersQuery :: "int \<Rightarrow> int \<Rightarrow> int \<Rightarrow> bool \<Rightarrow> pyval" where
  "GetBlockHeadersQuery block max_headers skip reverse =
     PObj [(''block'', PInt block), (''max_headers'', PInt max_headers),
           (''skip'', PInt skip), (''reverse'', PInt (if reverse then 1 else 0))]"

definition GetBlockHeaders :: command where
  "GetBlockHeaders = \<lparr>cmd_id = 2, decode_strict = True,
     cmd_structure = Fields
       [(''request_id'', big_endian_int),
        (''query'', GetBlockHeadersQuery_sedes)]\<rparr>"

text \<open>
  \<open>BlockHeader\<close> and \<open>BaseTransaction\<close> (\<open>evm.rlp.headers\<close>, \<open>evm.rlp.transactions\<close>)
  are not under src/: their codecs are parameters.
\<close>

definition BlockHeaders :: "sedes \<Rightarrow> command" where
  "BlockHeaders BlockHeader = \<lparr>cmd_id = 3, decode_strict = True,
     cmd_structure = Fields
       [(''request_id'', big_endian_int),
        (''buffer_value'', big_endian_int),
        (''headers'', CountableList BlockHeader)]\<rparr>"

definition GetBlockBodies :: command where
  "GetBlockBodies = \<lparr>cmd_id = 4, decode_strict = True,
     cmd_structure = Fields
       [(''request_id'', big_endian_int),
        (''block_hashes'', CountableList binary)]\<rparr>"

definition LESBlockBody :: "sedes \<Rightarrow> sedes \<Rightarrow> sedes" where
  "LESBlockBody BaseTransaction BlockHeader =
     Serializable
       [(''transactions'', CountableList BaseTransaction),
        (''uncles'', CountableList BlockHeader)]"

definition BlockBodies :: "sedes \<Rightarrow> sedes \<Rightarrow> command" where
  "BlockBodies BaseTransaction BlockHeader = \<lparr>cmd_id = 5, decode_strict = True,
     cmd_structure = Fields
       [(''request_id'', big_endian_int),
        (''buffer_value'', big_endian_int),
        (''bodies'', CountableList (LESBlockBody BaseTransaction BlockHeader))]\<rparr>"

section \<open>The protocol\<close>

text \<open>
  The peer context the protocol reads: \<open>self.peer.network_id\<close> and
  \<open>self.peer.genesis.hash\<close>.
\<close>

record peer =
  network_id :: int
  genesis_hash :: bytes

text \<open>
  A protocol instance: its offset into the command id space, its peer and the messages it
  has handed to the transport, oldest first.
\<close>

record LESProtocol =
  cmd_id_offset :: int
  peer :: peer
  sent :: "(int \<times> bytes) list"

definition version :: int where
  "version = 1"


text \<open>
  \<open>self.send(*cmd.encode(data))\<close>: the message is encoded first; when that raises,
  \<open>send\<close> is not called and the transport is as it was.
\<close>

definition send :: "LESProtocol \<Rightarrow> error + int \<times> bytes \<Rightarrow> error + LESProtocol" where
  "send p encoded =
     (case encoded of
        Inl e \<Rightarrow> Inl e
      | Inr (header, body) \<Rightarrow> Inr (p\<lparr>sent := sent p @ [(header, body)]\<rparr>))"

text \<open>
  \<open>LESProtocol.send_handshake\<close>. \<open>head_info\<close> is an object given by its attributes;
  reading a missing one raises \<open>AttributeError\<close>. The debug log line is not modelled.
\<close>

definition getattr :: "pyval dict \<Rightarrow> string \<Rightarrow> error + pyval" where
  "getattr obj name = (case map_of obj name of None \<Rightarrow> Inl AttributeError | Some v \<Rightarrow> Inr v)"

definition send_handshake :: "LESProtocol \<Rightarrow> pyval dict \<Rightarrow> error + LESProtocol" where
  "send_handshake p head_info =
     (case getattr head_info ''total_difficulty'' of Inl e \<Rightarrow> Inl e | Inr td \<Rightarrow>
      case getattr head_info ''block_hash'' of Inl e \<Rightarrow> Inl e | Inr h \<Rightarrow>
      case getattr head_info ''block_number'' of Inl e \<Rightarrow> Inl e | Inr n \<Rightarrow>
      case getattr head_info ''genesis_hash'' of Inl e \<Rightarrow> Inl e | Inr g \<Rightarrow>
        send p (Command_encode Status (cmd_id_offset p)
          (Status_encode_payload
             [(''protocolVersion'', PInt version),
              (''networkId'', PInt (network_id (peer p))),
              (''headTd'', td),
              (''headHash'', h),
              (''headNum'', n),
              (''genesisHash'', g)])))"

text \<open>
  \<open>encode_hex\<close> of the library \<open>eth_utils\<close>, which is not under src/: the text
  \<open>0x\<close> followed by the two hexadecimal digits of each byte. A value that is not a byte
  string raises \<open>TypeError\<close>.
\<close>

definition hex_digit :: "nat \<Rightarrow> char" where
  "hex_digit n = ''0123456789abcdef'' ! (n mod 16)"

definition encode_hex :: "pyval \<Rightarrow> error + string" where
  "encode_hex v =
     (case v of
        PBytes b \<Rightarrow>
          Inr (''0x'' @ concat (map (\<lambda>c. [hex_digit (of_char c div 16), hex_digit (of_char c)]) b))
      | _ \<Rightarrow> Inl TypeError)"

text \<open>
  \<open>LESProtocol.process_handshake\<close>. Both failures raise
  \<open>HandshakeFailure(DisconnectReason.other)\<close>. Each is preceded by a debug log line, of
  which the text is not modelled and the arguments are: they are evaluated before the
  \<open>raise\<close> is reached. Those of the first line (\<open>decoded_msg['networkId']\<close>, read a
  second time, and \<open>self.peer.network_id\<close>) raise nothing; the second line evaluates
  \<open>encode_hex(decoded_msg['genesisHash'])\<close>, which raises \<open>TypeError\<close> when the
  genesisHash of the message is not a byte string.
\<close>

definition process_handshake :: "peer \<Rightarrow> pyval dict \<Rightarrow> error + unit" where
  "process_handshake p decoded_msg =
     (case getitem decoded_msg ''networkId'' of Inl e \<Rightarrow> Inl e | Inr nid \<Rightarrow>
      if nid \<noteq> PInt (network_id p) then Inl (HandshakeFailure other)
      else
        case getitem decoded_msg ''genesisHash'' of Inl e \<Rightarrow> Inl e | Inr gh \<Rightarrow>
        if gh \<noteq> PBytes (genesis_hash p) then
          (case getitem decoded_msg ''genesisHash'' of Inl e \<Rightarrow> Inl e | Inr gh' \<Rightarrow>
           case encode_hex gh' of
             Inl e \<Rightarrow> Inl e
           | Inr hex \<Rightarrow> Inl (HandshakeFailure other))
        else Inr ())"



section \<open>The messages within the domain of their schema\<close>

text \<open>
  A Negotiation mapping within the domain of its schema: a dictionary (its keys are
  distinct) each of whose keys has a codec in \<open>items_sedes\<close> and a value in the type
  domain of that codec.
\<close>

definition is_status :: "pyval dict \<Rightarrow> bool" where
  "is_status d =
     (distinct (map fst d) \<and>
      list_all (\<lambda>(k, v). case map_of items_sedes k of
                            Some (Some s) \<Rightarrow> in_domain s v
                          | _ \<Rightarrow> False) d)"

text \<open>
  A message of a fixed-schema command within the domain of its schema: a dictionary that
  has exactly the fields of the structure, in any order, the value of each field in the
  type domain of its codec.
\<close>

definition is_message :: "command \<Rightarrow> pyval dict \<Rightarrow> bool" where
  "is_message c d =
     (case cmd_structure c of
        Countable _ \<Rightarrow> False
      | Fields flds \<Rightarrow>
          distinct (map fst d) \<and> set (map fst d) = set (map fst flds) \<and>
          (case field_values (map fst flds) d of
             None \<Rightarrow> False
           | Some vs \<Rightarrow> in_domain (List (map snd flds) True) (PList vs)))"

section \<open>The size of a serial form\<close>


section \<open>Properties of the codec primitives\<close>

lemma be_value_append: "be_value acc (xs @ ys) = be_value (be_value acc xs) ys"
  by (induction xs arbitrary: acc) auto

lemma be_value_be_digits: "be_value 0 (be_digits n) = n"
proof (induction n rule: be_digits.induct)
  case (1 n)
  show ?case
  proof (cases "n = 0")
    case True
    then show ?thesis by (simp add: be_digits.simps)
  next
    case False
    then have "be_digits n = be_digits (n div 256) @ [char_of (n mod 256)]"
      by (subst be_digits.simps) simp
    with 1 False show ?thesis by (simp add: be_value_append)
  qed
qed

lemma be_digits_nonempty: "0 < n \<Longrightarrow> be_digits n \<noteq> []"
  by (subst be_digits.simps) simp

lemma hd_be_digits: "0 < n \<Longrightarrow> (of_char (hd (be_digits n)) :: nat) \<noteq> 0"
proof (induction n rule: be_digits.induct)
  case (1 n)
  then have n: "n \<noteq> 0" by simp
  have unfold: "be_digits n = be_digits (n div 256) @ [char_of (n mod 256)]"
    using n by (subst be_digits.simps) simp
  show ?case
  proof (cases "n div 256 = 0")
    case True
    then have "n < 256" by (simp add: div_eq_0_iff)
    with True n unfold show ?thesis by (simp add: be_digits.simps)
  next
    case False
    then have "be_digits (n div 256) \<noteq> []" by (simp add: be_digits_nonempty)
    with 1 n False unfold show ?thesis by simp
  qed
qed

lemma length_be_digits: "n < 256 ^ k \<Longrightarrow> length (be_digits n) \<le> k"
proof (induction k arbitrary: n)
  case 0
  then show ?case by (simp add: be_digits.simps)
next
  case (Suc k)
  show ?case
  proof (cases "n = 0")
    case True
    then show ?thesis by (simp add: be_digits.simps)
  next
    case False
    from Suc.prems have "n div 256 < 256 ^ k"
      by (simp add: less_mult_imp_div_less mult.commute)
    from Suc.IH [OF this] False show ?thesis
      by (subst be_digits.simps) simp
  qed
qed

lemma split_item_single:
  "(of_char c :: nat) < 128 \<Longrightarrow> split_item (c # rest) = Inr (KStr, [c], rest)"
  by (simp add: split_item_def)

lemma of_char_prefix_byte:
  "n < 64 \<Longrightarrow> (of_char (char_of (128 + n)) :: nat) = 128 + n"
  "n < 64 \<Longrightarrow> (of_char (char_of (192 + n)) :: nat) = 192 + n"
  by simp_all

lemma split_item_short:
  assumes "length p < 56" and "off = 128 \<or> off = 192"
    and "off = 128 \<Longrightarrow> \<not> (length p = 1 \<and> (of_char (hd p) :: nat) < 128)"
  shows "split_item (char_of (off + length p) # p @ rest) =
           Inr (if off = 128 then KStr else KList, p, rest)"
proof (cases "off = 128")
  case True
  have "\<not> (length p = 1 \<and> (case p @ rest of [] \<Rightarrow> True | d # _ \<Rightarrow> (of_char d :: nat) < 128))"
    using assms(3) [OF True] by (cases p) auto
  with True assms(1) show ?thesis
    by (simp add: split_item_def Let_def of_char_prefix_byte del: of_char_of)
next
  case False
  with assms(1,2) show ?thesis
    by (simp add: split_item_def Let_def of_char_prefix_byte del: of_char_of)
qed

lemma split_item_long:
  assumes "56 \<le> length p" and "length p < 256 ^ 8" and "off = 128 \<or> off = 192"
  shows "split_item (char_of (off + 56 - 1 + length (int_to_big_endian (length p)))
                      # int_to_big_endian (length p) @ p @ rest) =
           Inr (if off = 128 then KStr else KList, p, rest)"
proof -
  define ls where "ls = be_digits (length p)"
  have pos: "0 < length p" using assms(1) by auto
  have ib: "int_to_big_endian (length p) = ls"
    using pos by (simp add: int_to_big_endian_def ls_def)
  have ne: "ls \<noteq> []" using pos unfolding ls_def by (rule be_digits_nonempty)
  have le: "length ls \<le> 8" using assms(2) by (simp add: ls_def length_be_digits)
  have ge: "1 \<le> length ls" using ne by (cases ls) auto
  have hd: "(of_char (hd ls) :: nat) \<noteq> 0" using pos unfolding ls_def by (rule hd_be_digits)
  have val: "big_endian_to_int ls = length p"
    by (simp add: big_endian_to_int_def ls_def be_value_be_digits)
  have b0: "(of_char (char_of (183 + length ls)) :: nat) = 183 + length ls"
    "(of_char (char_of (247 + length ls)) :: nat) = 247 + length ls"
    using le by auto
  have t1: "take 1 (ls @ p @ rest) \<noteq> [CHR 0x00]"
    using ne hd by (cases ls) auto
  have ll: "long_length k (length ls) (ls @ p @ rest) = Inr (k, length p, p @ rest)" for k
    using t1 val assms(1) by (simp add: long_length_def)
  show ?thesis
  proof (cases "off = 128")
    case True
    with le ge ne show ?thesis
      by (simp add: split_item_def Let_def ib b0 ll del: of_char_of)
  next
    case False
    with assms(3) have "off = 192" by simp
    with le ge ne show ?thesis
      by (simp add: split_item_def Let_def ib b0 ll del: of_char_of)
  qed
qed

lemma split_item_with_prefix:
  assumes "with_prefix off p = Inr bs" and "off = 128 \<or> off = 192"
    and "off = 128 \<Longrightarrow> \<not> (length p = 1 \<and> (of_char (hd p) :: nat) < 128)"
  shows "split_item (bs @ rest) = Inr (if off = 128 then KStr else KList, p, rest)"
proof (cases "length p < 56")
  case True
  with assms(1) have "bs = char_of (off + length p) # p"
    by (auto simp: with_prefix_def length_prefix_def)
  with split_item_short [OF True assms(2,3)] show ?thesis by simp
next
  case False
  with assms(1) have lt: "length p < 256 ^ 8"
    and bs: "bs = char_of (off + 56 - 1 + length (int_to_big_endian (length p)))
              # int_to_big_endian (length p) @ p"
    by (auto simp: with_prefix_def length_prefix_def split: if_splits)
  from False have "56 \<le> length p" by simp
  from split_item_long [OF this lt assms(2)] bs show ?thesis by simp
qed

lemma with_prefix_nonempty: "with_prefix off p = Inr bs \<Longrightarrow> bs \<noteq> []"
  by (auto simp: with_prefix_def length_prefix_def split: if_splits option.splits)

lemma encode_raw_nonempty: "encode_raw t = Inr bs \<Longrightarrow> bs \<noteq> []"
  by (cases t) (auto split: if_splits sum.splits dest: with_prefix_nonempty)

lemma decode_encode_raw:
  "encode_raw t = Inr bs \<Longrightarrow>
     \<exists>k p. split_item (bs @ rest) = Inr (k, p, rest) \<and> decode_item k p = Inr t"
  and decode_encode_all:
  "encode_all ts = Inr bs' \<Longrightarrow> decode_items bs' = Inr ts"
proof (induction t and ts arbitrary: bs rest and bs' rule: encode_raw_encode_all.induct)
  case (1 b)
  show ?case
  proof (cases "length b = 1 \<and> (of_char (hd b) :: nat) < 128")
    case True
    then obtain c where c: "b = [c]" and lt: "(of_char c :: nat) < 128" by (cases b) auto
    with 1 have "bs = [c]" by simp
    with c split_item_single [OF lt, of rest] show ?thesis by simp
  next
    case False
    with 1 have "with_prefix 128 b = Inr bs" by (auto split: if_splits)
    from split_item_with_prefix [OF this] False show ?thesis by simp
  qed
next
  case (2 xs)
  then obtain payload where p: "encode_all xs = Inr payload"
    and w: "with_prefix 192 payload = Inr bs"
    by (auto split: sum.splits)
  from split_item_with_prefix [OF w] have "split_item (bs @ rest) = Inr (KList, payload, rest)"
    by simp
  moreover from 2(1) [OF p] have "decode_item KList payload = Inr (PList xs)" by simp
  ultimately show ?case by blast
next
  case (6)
  then show ?case by (simp add: decode_items.simps)
next
  case (7 x xs)
  then obtain b bs0 where b: "encode_raw x = Inr b" and bs0: "encode_all xs = Inr bs0"
    and bs': "bs' = b @ bs0"
    by (auto split: sum.splits)
  from 7(1) [OF b, of bs0] obtain k p where
    s: "split_item (b @ bs0) = Inr (k, p, bs0)" and d: "decode_item k p = Inr x"
    by blast
  have "b \<noteq> []" using b by (rule encode_raw_nonempty)
  with s d 7(2) [OF b bs0] bs' show ?case
    by (subst decode_items.simps) simp
qed simp_all

lemma rlp_decode_encode_raw: "encode_raw t = Inr bs \<Longrightarrow> rlp_decode bs = Inr t"
  using decode_encode_raw [of t bs "[]"] by (auto simp: rlp_decode_def)

lemma big_endian_int_roundtrip:
  assumes "0 \<le> n"
  shows "take 1 (be_digits (nat n)) \<noteq> [CHR 0x00]"
    and "int (big_endian_to_int (be_digits (nat n))) = n"
proof -
  show "take 1 (be_digits (nat n)) \<noteq> [CHR 0x00]"
  proof (cases "n = 0")
    case True
    then show ?thesis by (simp add: be_digits.simps)
  next
    case False
    with assms have pos: "0 < nat n" by simp
    from be_digits_nonempty [OF pos] hd_be_digits [OF pos] show ?thesis
      by (cases "be_digits (nat n)") auto
  qed
  show "int (big_endian_to_int (be_digits (nat n))) = n"
    using assms by (simp add: big_endian_to_int_def be_value_be_digits)
qed

lemma field_values_lookup:
  "set names \<subseteq> fst ` set attrs \<Longrightarrow>
     field_values names attrs = Some (map (\<lambda>n. the (map_of attrs n)) names)"
proof (induction names)
  case Nil
  then show ?case by simp
next
  case (Cons n names)
  then have "n \<in> fst ` set attrs" by simp
  then have "map_of attrs n \<noteq> None" by (simp add: map_of_eq_None_iff)
  then obtain v where "map_of attrs n = Some v" by auto
  with Cons show ?case by simp
qed

lemma field_values_own:
  assumes "distinct (map fst attrs)"
  shows "field_values (map fst attrs) attrs = Some (map snd attrs)"
proof -
  have "the (map_of attrs (fst x)) = snd x" if "x \<in> set attrs" for x
  proof -
    from that have "(fst x, snd x) \<in> set attrs" by simp
    with assms have "map_of attrs (fst x) = Some (snd x)" by (simp only: map_of_eq_Some_iff)
    then show ?thesis by simp
  qed
  then have "map (\<lambda>n. the (map_of attrs n)) (map fst attrs) = map snd attrs" by simp
  with field_values_lookup [of "map fst attrs" attrs] show ?thesis by simp
qed

lemma sedes_roundtrip:
  "in_domain s v \<Longrightarrow>
     \<exists>t. serialize s v = Inr t \<and> serializable t \<and> deserialize s t = Inr v"
  "in_domain_each s vs \<Longrightarrow>
     \<exists>ts. serialize_each s vs = Inr ts \<and> list_all serializable ts \<and>
          deserialize_each s ts = Inr vs"
  "in_domain_zip ss vs \<Longrightarrow> length vs \<le> length ss \<Longrightarrow>
     \<exists>ts. serialize_zip ss vs = Inr ts \<and> list_all serializable ts \<and> length ts = length vs \<and>
          deserialize_zip ss ts = Inr vs"
  "in_domain_fields flds vs \<Longrightarrow> length vs = length flds \<Longrightarrow>
     \<exists>ts. serialize_fields flds vs = Inr ts \<and> list_all serializable ts \<and>
          length ts = length vs \<and>
          deserialize_fields flds ts = Inr (zip (map fst flds) vs)"
proof (induction s v and s vs and ss vs and flds vs
    rule: in_domain_in_domain_each_in_domain_zip_in_domain_fields.induct)
  case (1 v)
  then show ?case
    using big_endian_int_roundtrip(1)
    by (auto simp: big_endian_int_roundtrip(2) split: pyval.splits)
next
  case (2 v)
  then show ?case by (auto split: pyval.splits)
next
  case (3 v)
  then show ?case by simp
next
  case (4 s v)
  then show ?case by (fastforce split: pyval.splits)
next
  case (5 ss strict v)
  from 5(2) obtain vs where v: "v = PList vs"
    and len: "if strict then length vs = length ss else length vs \<le> length ss"
    and dom: "in_domain_zip ss vs"
    by (auto split: pyval.splits)
  from len have le: "length vs \<le> length ss" by (auto split: if_splits)
  from 5(1) [OF v dom le] obtain ts where
    "serialize_zip ss vs = Inr ts" "list_all serializable ts" "length ts = length vs"
    "deserialize_zip ss ts = Inr vs"
    by blast
  with v len le show ?case by (auto split: if_splits)
next
  case (6 flds v)
  then obtain attrs where v: "v = PObj attrs" and names: "map fst attrs = map fst flds"
    and d: "distinct (map fst flds)" and dom: "in_domain_fields flds (map snd attrs)"
    by (auto split: pyval.splits)
  from names have len: "length (map snd attrs) = length flds"
    by (metis length_map)
  from d names have fv: "field_values (map fst flds) attrs = Some (map snd attrs)"
    using field_values_own [of attrs] by simp
  from 6(1) [OF v dom len] obtain ts where
    "serialize_fields flds (map snd attrs) = Inr ts" "list_all serializable ts"
    "length ts = length (map snd attrs)"
    "deserialize_fields flds ts = Inr (zip (map fst flds) (map snd attrs))"
    by blast
  moreover have "zip (map fst flds) (map snd attrs) = attrs"
    using names [symmetric] by (simp add: zip_map_fst_snd)
  ultimately show ?case using v fv len by simp
qed (fastforce+)

lemma serialize_error:
  "serialize s v = Inl e \<Longrightarrow> e = SerializationError"
  "serialize_each s vs = Inl e \<Longrightarrow> e = SerializationError"
  "serialize_zip ss vs = Inl e \<Longrightarrow> e = SerializationError"
  "serialize_fields flds vs = Inl e \<Longrightarrow> e = SerializationError"
  by (induction s v and s vs and ss vs and flds vs
      rule: serialize_serialize_each_serialize_zip_serialize_fields.induct)
    (auto split: pyval.splits if_splits sum.splits option.splits)

section \<open>Properties of decoding a fixed-schema message\<close>

lemma deserialize_zip_length:
  "deserialize_zip ss ts = Inr vs \<Longrightarrow> length vs = min (length ss) (length ts)"
proof (induction ss arbitrary: ts vs)
  case Nil
  then show ?case by simp
next
  case (Cons s ss)
  then show ?case by (cases ts) (auto split: sum.splits)
qed

lemma Command_decode_payload_fields:
  assumes "Command_decode_payload c rlp_data = Inr m" and "cmd_structure c = Fields flds"
    and "decode_strict c"
  shows "\<exists>l. m = MDict (zip (map fst flds) l) \<and> length l = length flds"
proof -
  from assms obtain t l where
    d: "deserialize (List (map snd flds) True) t = Inr (PList l)"
    and m: "m = MDict (zip (map fst flds) l)"
    by (auto simp: Command_decode_payload_def rlp_decode_sedes_def
        split: sum.splits pyval.splits)
  from d obtain ts where "t = PList ts" "length ts = length flds"
    "deserialize_zip (map snd flds) ts = Inr l"
    by (cases t) (auto split: if_splits sum.splits)
  with deserialize_zip_length [of "map snd flds" ts l] m show ?thesis by auto
qed

lemma Announce_decoded:
  assumes "Command_decode_payload Announce rlp_data = Inr m"
  shows "\<exists>h n td r ps. m = MDict [(''head_hash'', h), (''head_number'', n), (''head_td'', td),
           (''reorg_depth'', r), (''params'', ps)]"
proof -
  have "cmd_structure Announce = Fields
       [(''head_hash'', binary),
        (''head_number'', big_endian_int),
        (''head_td'', big_endian_int),
        (''reorg_depth'', big_endian_int),
        (''params'', CountableList (List [binary, raw] True))]" and "decode_strict Announce"
    by (simp_all add: Announce_def)
  from Command_decode_payload_fields [OF assms this] obtain l where
    m: "m = MDict (zip [''head_hash'', ''head_number'', ''head_td'', ''reorg_depth'', ''params''] l)"
    and len: "length l = 5"
    by auto
  from len obtain h n td r ps where "l = [h, n, td, r, ps]"
    by (auto simp: length_Suc_conv eval_nat_numeral)
  with m show ?thesis by simp
qed


section \<open>Properties of the Status encoding\<close>

lemma Status_serialize_items_Inr:
  "Status_serialize_items items = Inr r \<Longrightarrow> (k, v) \<in> set items \<Longrightarrow>
     \<exists>s t. map_of items_sedes k = Some (Some s) \<and> serialize s v = Inr t"
  by (induction items arbitrary: r) (auto split: option.splits sum.splits)

lemma Status_serialize_items_append:
  "Status_serialize_items (xs @ ys) =
     (case Status_serialize_items xs of
        Inl e \<Rightarrow> Inl e
      | Inr r \<Rightarrow>
          (case Status_serialize_items ys of Inl e \<Rightarrow> Inl e | Inr r' \<Rightarrow> Inr (r @ r')))"
  by (induction xs) (auto split: option.splits sum.splits)

lemma Status_serialize_items_ok:
  "(\<And>k v. (k, v) \<in> set items \<Longrightarrow>
      \<exists>s t. map_of items_sedes k = Some (Some s) \<and> serialize s v = Inr t) \<Longrightarrow>
   \<exists>r. Status_serialize_items items = Inr r"
proof (induction items)
  case Nil
  then show ?case by simp
next
  case (Cons a items)
  obtain k v where a: "a = (k, v)" by (cases a)
  from Cons.prems [of k v] a obtain s t where
    "map_of items_sedes k = Some (Some s)" "serialize s v = Inr t" by auto
  moreover from Cons.IH Cons.prems obtain r where "Status_serialize_items items = Inr r"
    by auto
  ultimately show ?case using a by simp
qed

lemma Status_encode_payload_Inr:
  assumes "Status_encode_payload data = Inr bs" and "(k, v) \<in> set data"
  shows "\<exists>s t. map_of items_sedes k = Some (Some s) \<and> serialize s v = Inr t"
proof -
  from assms(1) obtain r where "Status_serialize_items (sort_key fst data) = Inr r"
    by (auto simp: Status_encode_payload_def split: sum.splits)
  moreover from assms(2) have "(k, v) \<in> set (sort_key fst data)" by simp
  ultimately show ?thesis by (rule Status_serialize_items_Inr)
qed

lemma map_of_own:
  "distinct (map fst xs) \<Longrightarrow> x \<in> set xs \<Longrightarrow> map_of xs (fst x) = Some (snd x)"
  by (cases x) simp

lemma alist_expand:
  assumes "distinct (map fst xs)"
  shows "xs = map (\<lambda>k. (k, the (map_of xs k))) (map fst xs)"
proof -
  have "map (\<lambda>k. (k, the (map_of xs k))) (map fst xs) =
        map (\<lambda>x. (fst x, the (map_of xs (fst x)))) xs"
    by (simp add: comp_def)
  also have "\<dots> = map (\<lambda>x. x) xs"
    by (rule map_cong) (simp_all add: map_of_own [OF assms])
  finally show ?thesis by simp
qed

lemma sort_key_fst_unique:
  assumes "distinct (map fst d1)" and "distinct (map fst d2)" and "map_of d1 = map_of d2"
  shows "sort_key fst d1 = sort_key fst d2"
proof -
  let ?xs = "sort_key fst d1" and ?ys = "sort_key fst d2"
  have set: "set d1 = set d2" using assms by (simp add: map_of_inject_set)
  have dx: "distinct (map fst ?xs)" and dy: "distinct (map fst ?ys)"
    using assms(1,2) by (simp_all add: distinct_map)
  have "set (map fst ?xs) = set (map fst ?ys)" using set by simp
  moreover have "sorted (map fst ?xs)" "sorted (map fst ?ys)" by simp_all
  ultimately have keys: "map fst ?xs = map fst ?ys"
    using dx dy by (simp add: sorted_distinct_set_unique)
  have "map_of ?xs = map_of ?ys"
    using dx dy set by (simp add: map_of_inject_set)
  with alist_expand [OF dx] alist_expand [OF dy] keys show ?thesis by simp
qed


lemma sorted_prefix_less:
  assumes "sorted (map fst (pre @ (k, v) # post))" and "distinct (map fst (pre @ (k, v) # post))"
    and "(k', v') \<in> set pre"
  shows "k' < k"
proof -
  from assms(1,3) have "k' \<le> k" by (force simp: sorted_append)
  moreover from assms(2,3) have "k' \<noteq> k" by force
  ultimately show ?thesis by simp
qed

lemma Status_serialize_items_prefix_ok:
  assumes d: "distinct (map fst data)" and kv: "(k, v) \<in> set data"
    and before: "\<And>k' v'. (k', v') \<in> set data \<Longrightarrow> k' < k \<Longrightarrow>
       \<exists>s t. map_of items_sedes k' = Some (Some s) \<and> serialize s v' = Inr t"
  shows "\<exists>pre post r. sort_key fst data = pre @ (k, v) # post \<and>
     Status_serialize_items pre = Inr r"
proof -
  let ?xs = "sort_key fst data"
  from kv have "(k, v) \<in> set ?xs" by simp
  then obtain pre post where xs: "?xs = pre @ (k, v) # post"
    by (blast dest: split_list)
  have sorted: "sorted (map fst (pre @ (k, v) # post))"
    using sorted_sort_key [of fst data] xs by simp
  have dist: "distinct (map fst (pre @ (k, v) # post))"
    using d xs [symmetric] by (simp add: distinct_map del: map_append)
  have "\<exists>s t. map_of items_sedes k' = Some (Some s) \<and> serialize s v' = Inr t"
    if "(k', v') \<in> set pre" for k' v'
  proof -
    from that have "(k', v') \<in> set ?xs" using xs by simp
    then have "(k', v') \<in> set data" by simp
    moreover have "k' < k" using sorted dist that by (rule sorted_prefix_less)
    ultimately show ?thesis by (rule before)
  qed
  then obtain r where "Status_serialize_items pre = Inr r"
    using Status_serialize_items_ok [of pre] by blast
  with xs show ?thesis by blast
qed

lemma Status_encode_payload_first_unknown:
  assumes d: "distinct (map fst data)" and kv: "(k, v) \<in> set data"
    and unknown: "map_of items_sedes k = None"
    and before: "\<And>k' v'. (k', v') \<in> set data \<Longrightarrow> k' < k \<Longrightarrow>
       \<exists>s t. map_of items_sedes k' = Some (Some s) \<and> serialize s v' = Inr t"
  shows "Status_encode_payload data = Inl (KeyError k)"
proof -
  from Status_serialize_items_prefix_ok [OF d kv before] obtain pre post r where
    "sort_key fst data = pre @ (k, v) # post" "Status_serialize_items pre = Inr r"
    by blast
  with unknown have "Status_serialize_items (sort_key fst data) = Inl (KeyError k)"
    by (simp add: Status_serialize_items_append)
  then show ?thesis by (simp add: Status_encode_payload_def)
qed

lemma Status_encode_payload_first_rejected:
  assumes d: "distinct (map fst data)" and kv: "(k, v) \<in> set data"
    and known: "map_of items_sedes k = Some (Some s)" and rejected: "serialize s v = Inl e"
    and before: "\<And>k' v'. (k', v') \<in> set data \<Longrightarrow> k' < k \<Longrightarrow>
       \<exists>s t. map_of items_sedes k' = Some (Some s) \<and> serialize s v' = Inr t"
  shows "Status_encode_payload data = Inl SerializationError"
proof -
  from Status_serialize_items_prefix_ok [OF d kv before] obtain pre post r where
    "sort_key fst data = pre @ (k, v) # post" "Status_serialize_items pre = Inr r"
    by blast
  moreover from rejected have "serialize s v = Inl SerializationError"
    using serialize_error(1) by blast
  ultimately have "Status_serialize_items (sort_key fst data) = Inl SerializationError"
    using known by (simp add: Status_serialize_items_append)
  then show ?thesis by (simp add: Status_encode_payload_def)
qed

section \<open>Properties of the Status decoding\<close>

lemma deserialize_pair_shape:
  "deserialize (List [binary, raw] True) t = Inr item \<Longrightarrow>
     \<exists>key val. item = PList [PBytes key, val] \<and> t = PList [PBytes key, val]"
proof -
  assume a: "deserialize (List [binary, raw] True) t = Inr item"
  then obtain ts where t: "t = PList ts" by (cases t) auto
  with a have len: "length ts = 2" by (auto split: if_splits)
  then obtain x y where ts: "ts = [x, y]"
    by (cases ts; cases "tl ts") auto
  from a t ts obtain key where "x = PBytes key" by (cases x) auto
  with a t ts show ?thesis by auto
qed

lemma deserialize_each_pair_shape:
  "deserialize_each (List [binary, raw] True) ts = Inr l \<Longrightarrow> item \<in> set l \<Longrightarrow>
     \<exists>key val. item = PList [PBytes key, val]"
proof (induction ts arbitrary: l)
  case Nil
  then show ?case by simp
next
  case (Cons t ts)
  from Cons.prems(1) obtain v vs where
    v: "deserialize (List [binary, raw] True) t = Inr v"
    and vs: "deserialize_each (List [binary, raw] True) ts = Inr vs" and l: "l = v # vs"
    by (auto split: sum.splits)
  show ?case
  proof (cases "item = v")
    case True
    with deserialize_pair_shape [OF v] show ?thesis by blast
  next
    case False
    with Cons.prems(2) l have "item \<in> set vs" by simp
    with Cons.IH [OF vs] show ?thesis by blast
  qed
qed

lemma Status_outer_list:
  assumes "Command_decode_payload Status rlp_data = Inr m"
  shows "\<exists>data. m = MList data \<and> (\<forall>item \<in> set data. \<exists>key val. item = PList [PBytes key, val])"
proof -
  from assms obtain t l where
    "deserialize (CountableList (List [binary, raw] True)) t = Inr (PList l)" and m: "m = MList l"
    by (auto simp: Command_decode_payload_def Status_def rlp_decode_sedes_def
        split: sum.splits pyval.splits)
  then obtain ts where "deserialize_each (List [binary, raw] True) ts = Inr l"
    by (cases t) (auto split: sum.splits)
  with m deserialize_each_pair_shape show ?thesis by blast
qed

lemma Status_decode_pairs_append:
  "Status_decode_pairs (xs @ ys) =
     (case Status_decode_pairs xs of
        Inl e \<Rightarrow> Inl e
      | Inr ps \<Rightarrow> (case Status_decode_pairs ys of Inl e \<Rightarrow> Inl e | Inr qs \<Rightarrow> Inr (ps @ qs)))"
  by (induction xs) (auto split: sum.splits option.splits)

lemma Status_decode_pairs_fails:
  "item \<in> set data \<Longrightarrow> Status_decode_item item = Inl e \<Longrightarrow>
     \<exists>e'. Status_decode_pairs data = Inl e'"
  by (induction data) (auto split: sum.splits)

lemma Status_decode_pairs_ok:
  "(\<And>item. item \<in> set data \<Longrightarrow> \<exists>y. Status_decode_item item = Inr y) \<Longrightarrow>
     \<exists>ps. Status_decode_pairs data = Inr ps"
proof (induction data)
  case Nil
  then show ?case by simp
next
  case (Cons item data)
  from Cons.prems [of item] obtain y where "Status_decode_item item = Inr y" by auto
  moreover from Cons.IH Cons.prems obtain ps where "Status_decode_pairs data = Inr ps" by auto
  ultimately show ?case by simp
qed

lemma Status_decode_pairs_set:
  "Status_decode_pairs data = Inr ps \<Longrightarrow>
     set ps = {kv. \<exists>item \<in> set data. Status_decode_item item = Inr (Some kv)}"
proof (induction data arbitrary: ps)
  case Nil
  then show ?case by simp
next
  case (Cons item data)
  from Cons.prems obtain y qs where y: "Status_decode_item item = Inr y"
    and qs: "Status_decode_pairs data = Inr qs"
    and ps: "ps = (case y of None \<Rightarrow> qs | Some kv \<Rightarrow> kv # qs)"
    by (auto split: sum.splits)
  from Cons.IH [OF qs] y ps show ?case by (cases y) auto
qed

lemma map_of_setitem: "map_of (setitem d k v) = (map_of d)(k \<mapsto> v)"
  by (induction d) (auto simp: fun_eq_iff)

lemma map_of_foldl_setitem:
  "map_of (foldl (\<lambda>d (k, v). setitem d k v) d ps) = map_of d ++ map_of (rev ps)"
proof (induction ps arbitrary: d)
  case Nil
  then show ?case by simp
next
  case (Cons p ps)
  obtain k v where p: "p = (k, v)" by (cases p)
  have "map_of (foldl (\<lambda>d (k, v). setitem d k v) d (p # ps)) =
        map_of (foldl (\<lambda>d (k, v). setitem d k v) (setitem d k v) ps)"
    by (simp add: p)
  also have "\<dots> = map_of (setitem d k v) ++ map_of (rev ps)"
    by (rule Cons)
  also have "\<dots> = (map_of d)(k \<mapsto> v) ++ map_of (rev ps)"
    by (simp only: map_of_setitem)
  also have "\<dots> = map_of d ++ map_of (rev (p # ps))"
    by (simp add: p map_add_def fun_eq_iff split: option.splits)
  finally show ?case .
qed

lemma map_of_to_dict: "map_of (to_dict ps) = map_of (rev ps)"
  by (simp add: to_dict_def map_of_foldl_setitem)

lemma keys_to_dict: "fst ` set (to_dict ps) = fst ` set ps"
proof -
  have "dom (map_of (to_dict ps)) = dom (map_of (rev ps))" by (simp add: map_of_to_dict)
  then show ?thesis by (simp add: dom_map_of_conv_image_fst)
qed

lemma distinct_setitem: "distinct (map fst d) \<Longrightarrow> distinct (map fst (setitem d k v))"
proof (induction d)
  case Nil
  then show ?case by simp
next
  case (Cons a d)
  have "fst ` set (setitem d k v) = insert k (fst ` set d)"
    using map_of_setitem [of d k v]
    by (metis dom_fun_upd dom_map_of_conv_image_fst option.distinct(1))
  with Cons show ?case by (cases a) auto
qed

lemma distinct_foldl_setitem:
  "distinct (map fst d) \<Longrightarrow> distinct (map fst (foldl (\<lambda>d (k, v). setitem d k v) d ps))"
  by (induction ps arbitrary: d) (auto simp: distinct_setitem)

lemma distinct_to_dict: "distinct (map fst (to_dict ps))"
  by (simp add: to_dict_def distinct_foldl_setitem)

lemma to_dict_entry: "(k, v) \<in> set (to_dict ps) \<longleftrightarrow> map_of (rev ps) k = Some v"
  using distinct_to_dict [of ps] by (simp add: map_of_to_dict [symmetric])

lemma getitem_to_dict_last:
  assumes "k \<notin> fst ` set qs"
  shows "getitem (to_dict (ps @ (k, v) # qs)) k = Inr v"
proof -
  have "map_of (rev qs) k = None" using assms by (simp add: map_of_eq_None_iff)
  then have "map_of (rev (ps @ (k, v) # qs)) k = Some v"
    by (simp add: map_add_def)
  then show ?thesis by (simp add: getitem_def map_of_to_dict)
qed

lemma Status_decode_item_known:
  "decode_ascii key = Inr k \<Longrightarrow> map_of items_sedes k = Some c \<Longrightarrow>
     Status_decode_item (PList [PBytes key, val]) =
       (case c of
          None \<Rightarrow> Inr (Some (k, val))
        | Some s \<Rightarrow> (case deserialize s val of Inl e \<Rightarrow> Inl e | Inr v \<Rightarrow> Inr (Some (k, v))))"
  by (simp add: Status_decode_item_def split: option.splits)

lemma Status_decode_item_key:
  "Status_decode_item item = Inr (Some (k, v)) \<Longrightarrow>
     \<exists>val. item = PList [PBytes k, val] \<and> list_all (\<lambda>c. (of_char c :: nat) < 128) k \<and>
       ((map_of items_sedes k = Some None \<and> v = val) \<or>
        (\<exists>s. map_of items_sedes k = Some (Some s) \<and> deserialize s val = Inr v))"
  by (auto simp: Status_decode_item_def decode_ascii_def
      split: pyval.splits list.splits sum.splits option.splits if_splits)

lemma decode_ascii_Inr: "decode_ascii key = Inr k \<Longrightarrow> k = key"
  by (auto simp: decode_ascii_def split: if_splits)


section \<open>Properties of encoding followed by decoding\<close>

lemma with_prefix_error: "with_prefix off p = Inl e \<Longrightarrow> e = EncodingError"
  by (auto simp: with_prefix_def split: option.splits)

lemma encode_raw_error:
  "encode_raw t = Inl e \<Longrightarrow> e = EncodingError"
  "encode_all ts = Inl e \<Longrightarrow> e = EncodingError"
  by (induction t and ts rule: encode_raw_encode_all.induct)
    (auto split: if_splits sum.splits dest: with_prefix_error)

lemma str_to_bytes_ascii:
  "list_all (\<lambda>c. (of_char c :: nat) < 128) s \<Longrightarrow> str_to_bytes s = s"
  by (induction s) (auto simp: str_to_bytes_def)

lemma known_key_ascii:
  assumes "map_of items_sedes k = Some c"
  shows "list_all (\<lambda>c. (of_char c :: nat) < 128) k"
proof -
  from assms have "k \<in> fst ` set items_sedes" by (force dest: map_of_SomeD)
  then show ?thesis unfolding items_sedes_def by auto
qed

lemma setitem_new: "k \<notin> fst ` set d \<Longrightarrow> setitem d k v = d @ [(k, v)]"
  by (induction d) auto

lemma foldl_setitem_distinct:
  "distinct (map fst (d @ xs)) \<Longrightarrow> foldl (\<lambda>d (k, v). setitem d k v) d xs = d @ xs"
proof (induction xs arbitrary: d)
  case Nil
  then show ?case by simp
next
  case (Cons x xs)
  obtain k v where x: "x = (k, v)" by (cases x)
  from Cons.prems x have new: "k \<notin> fst ` set d" by auto
  from Cons.prems x have "distinct (map fst ((d @ [(k, v)]) @ xs))" by simp
  from Cons.IH [OF this] new x show ?case by (simp add: setitem_new)
qed

lemma to_dict_distinct: "distinct (map fst xs) \<Longrightarrow> to_dict xs = xs"
  using foldl_setitem_distinct [of "[]" xs] by (simp add: to_dict_def)

lemma Status_pairs_roundtrip:
  assumes "\<And>k v. (k, v) \<in> set xs \<Longrightarrow>
     \<exists>s. map_of items_sedes k = Some (Some s) \<and> in_domain s v"
  shows "\<exists>resp tree. Status_serialize_items xs = Inr resp \<and>
     serialize_each (List [binary, raw] True) resp = Inr tree \<and>
     list_all serializable tree \<and>
     deserialize_each (List [binary, raw] True) tree = Inr tree \<and>
     Status_decode_pairs tree = Inr xs"
  using assms
proof (induction xs)
  case Nil
  then show ?case by simp
next
  case (Cons x xs)
  obtain k v where x: "x = (k, v)" by (cases x)
  from Cons.prems [of k v] x obtain s where s: "map_of items_sedes k = Some (Some s)"
    and dom: "in_domain s v" by auto
  from sedes_roundtrip(1) [OF dom] obtain t where t: "serialize s v = Inr t"
    and st: "serializable t" and inv: "deserialize s t = Inr v" by blast
  have ascii: "list_all (\<lambda>c. (of_char c :: nat) < 128) k"
    using s by (rule known_key_ascii)
  from Cons.IH Cons.prems obtain resp tree where
    IH: "Status_serialize_items xs = Inr resp"
      "serialize_each (List [binary, raw] True) resp = Inr tree"
      "list_all serializable tree"
      "deserialize_each (List [binary, raw] True) tree = Inr tree"
      "Status_decode_pairs tree = Inr xs"
    by auto
  have 1: "Status_serialize_items (x # xs) = Inr (PList [PStr k, t] # resp)"
    using x s t IH(1) by simp
  have 2: "serialize_each (List [binary, raw] True) (PList [PStr k, t] # resp) =
             Inr (PList [PBytes k, t] # tree)"
    using st IH(2) ascii by (simp add: str_to_bytes_ascii)
  have 3: "list_all serializable (PList [PBytes k, t] # tree)"
    using st IH(3) by simp
  have 4: "deserialize_each (List [binary, raw] True) (PList [PBytes k, t] # tree) =
             Inr (PList [PBytes k, t] # tree)"
    using IH(4) by simp
  have "Status_decode_item (PList [PBytes k, t]) = Inr (Some (k, v))"
    using ascii s inv by (simp add: Status_decode_item_def decode_ascii_def)
  then have 5: "Status_decode_pairs (PList [PBytes k, t] # tree) = Inr (x # xs)"
    using IH(5) x by simp
  from 1 2 3 4 5 show ?case by blast
qed

lemma Status_roundtrip:
  assumes d: "distinct (map fst d)"
    and dom: "\<And>k v. (k, v) \<in> set d \<Longrightarrow>
       \<exists>s. map_of items_sedes k = Some (Some s) \<and> in_domain s v"
  shows "case Status_encode_payload d of
           Inl e \<Rightarrow> e = EncodingError
         | Inr bs \<Rightarrow> Status_decode_payload bs = Inr (sort_key fst d)"
proof -
  let ?xs = "sort_key fst d"
  have "\<exists>s. map_of items_sedes k = Some (Some s) \<and> in_domain s v"
    if "(k, v) \<in> set ?xs" for k v
    using that dom by simp
  from Status_pairs_roundtrip [of ?xs, OF this] obtain resp tree where
    r: "Status_serialize_items ?xs = Inr resp"
      "serialize_each (List [binary, raw] True) resp = Inr tree"
      "list_all serializable tree"
      "deserialize_each (List [binary, raw] True) tree = Inr tree"
      "Status_decode_pairs tree = Inr ?xs"
    by blast
  have enc: "Status_encode_payload d = encode_raw (PList tree)"
    using r(1,2)
    by (simp add: Status_encode_payload_def Command_encode_payload_def Status_def rlp_encode_def)
  show ?thesis
  proof (cases "encode_raw (PList tree)")
    case (Inl e)
    then have "e = EncodingError" by (rule encode_raw_error(1))
    with enc Inl show ?thesis by (simp only: sum.case)
  next
    case (Inr bs)
    from rlp_decode_encode_raw [OF Inr] r(4)
    have "Command_decode_payload Status bs = Inr (MList tree)"
      by (simp add: Command_decode_payload_def Status_def rlp_decode_sedes_def)
    moreover have "distinct (map fst ?xs)" using d by (simp add: distinct_map)
    ultimately have "Status_decode_payload bs = Inr ?xs"
      using r(5) by (simp add: Status_decode_payload_def to_dict_distinct)
    with enc Inr show ?thesis by (simp only: sum.case)
  qed
qed

lemma map_of_zip_lookup:
  assumes "set (map fst d) = set names"
  shows "map_of (zip names (map (\<lambda>n. the (map_of d n)) names)) = map_of d"
proof
  fix n
  show "map_of (zip names (map (\<lambda>n. the (map_of d n)) names)) n = map_of d n"
  proof (cases "n \<in> set names")
    case True
    with assms have "n \<in> fst ` set d" by simp
    then have "map_of d n \<noteq> None" by (simp add: map_of_eq_None_iff)
    with True show ?thesis by (auto simp: map_of_zip_map)
  next
    case False
    with assms have "n \<notin> fst ` set d" by simp
    then have "map_of d n = None" by (simp add: map_of_eq_None_iff)
    with False show ?thesis by (simp add: map_of_zip_map)
  qed
qed

lemma Command_roundtrip_values:
  assumes s: "cmd_structure c = Fields flds" and strict: "decode_strict c"
    and m: "is_message c d"
  shows "\<exists>vs. field_values (map fst flds) d = Some vs \<and>
     map_of (zip (map fst flds) vs) = map_of d \<and>
     (case Command_encode_payload c (MDict d) of
        Inl e \<Rightarrow> e = EncodingError
      | Inr bs \<Rightarrow> Command_decode_payload c bs = Inr (MDict (zip (map fst flds) vs)))"
proof -
  from m s obtain vs where keys: "set (map fst d) = set (map fst flds)"
    and vs: "field_values (map fst flds) d = Some vs"
    and dom: "in_domain (List (map snd flds) True) (PList vs)"
    by (auto simp: is_message_def split: option.splits)
  from keys have "set (map fst flds) \<subseteq> fst ` set d" by auto
  from field_values_lookup [OF this] vs
  have vs_eq: "vs = map (\<lambda>n. the (map_of d n)) (map fst flds)" by simp
  have same: "map_of (zip (map fst flds) vs) = map_of d"
    unfolding vs_eq using keys by (rule map_of_zip_lookup)
  from sedes_roundtrip(1) [OF dom] obtain t where
    t: "serialize (List (map snd flds) True) (PList vs) = Inr t"
    and inv: "deserialize (List (map snd flds) True) t = Inr (PList vs)"
    by blast
  have enc: "Command_encode_payload c (MDict d) = encode_raw t"
    using s vs t by (simp add: Command_encode_payload_def rlp_encode_def)
  have "case Command_encode_payload c (MDict d) of
        Inl e \<Rightarrow> e = EncodingError
      | Inr bs \<Rightarrow> Command_decode_payload c bs = Inr (MDict (zip (map fst flds) vs))"
  proof (cases "encode_raw t")
    case (Inl e)
    then have "e = EncodingError" by (rule encode_raw_error(1))
    with enc Inl show ?thesis by (simp only: sum.case)
  next
    case (Inr bs)
    from rlp_decode_encode_raw [OF Inr] inv s strict
    have "Command_decode_payload c bs = Inr (MDict (zip (map fst flds) vs))"
      by (simp add: Command_decode_payload_def rlp_decode_sedes_def)
    with enc Inr show ?thesis by (simp only: sum.case)
  qed
  with vs same show ?thesis by blast
qed

lemma Command_roundtrip:
  assumes "cmd_structure c = Fields flds" and "decode_strict c" and "is_message c d"
  shows "case Command_encode_payload c (MDict d) of
           Inl e \<Rightarrow> e = EncodingError
         | Inr bs \<Rightarrow> \<exists>d'. Command_decode_payload c bs = Inr (MDict d') \<and> map_of d' = map_of d"
  using Command_roundtrip_values [OF assms] by (auto split: sum.splits)



section \<open>Properties of the requests\<close>

lemma rlp_encode_error:
  "rlp_encode obj s = Inl e \<Longrightarrow> e = SerializationError \<or> e = EncodingError"
  by (auto simp: rlp_encode_def split: sum.splits dest: serialize_error(1) encode_raw_error(1))

lemma Command_encode_payload_error:
  assumes "Command_encode_payload c (MDict d) = Inl e" and "cmd_structure c = Fields flds"
    and "field_values (map fst flds) d = Some vs"
  shows "e = SerializationError \<or> e = EncodingError"
  using assms by (auto simp: Command_encode_payload_def dest: rlp_encode_error)






























section \<open>Properties of the two directions of the Status message\<close>

text \<open>
  Decoding skips the unknown keys whose bytes are ASCII: when the outer list is well
  formed, every key in it is ASCII and the value of every known key that has a codec is
  decodable by that codec, decoding succeeds; the result has no unknown key, it has every
  known key of the list, and each of its values is the value of a pair of that key in the
  list, decoded by the key's codec (as it is, for a flag).
\<close>

lemma ascii_unknown_keys_are_skipped:
  assumes "Command_decode_payload Status rlp_data = Inr (MList data)"
    and "\<forall>key val. PList [PBytes key, val] \<in> set data \<longrightarrow>
           list_all (\<lambda>c. (of_char c :: nat) < 128) key \<and>
           (\<forall>s. map_of items_sedes key = Some (Some s) \<longrightarrow> (\<exists>v. deserialize s val = Inr v))"
  shows "\<exists>d. Status_decode_payload rlp_data = Inr d \<and>
     (\<forall>k. map_of items_sedes k = None \<longrightarrow> k \<notin> fst ` set d) \<and>
     (\<forall>key val. PList [PBytes key, val] \<in> set data \<and> map_of items_sedes key \<noteq> None
        \<longrightarrow> key \<in> fst ` set d) \<and>
     (\<forall>k v. (k, v) \<in> set d \<longrightarrow>
        (\<exists>val. PList [PBytes k, val] \<in> set data \<and>
           ((map_of items_sedes k = Some None \<and> v = val) \<or>
            (\<exists>s. map_of items_sedes k = Some (Some s) \<and> deserialize s val = Inr v))))"
proof -
  have shape: "\<exists>key val. item = PList [PBytes key, val]" if "item \<in> set data" for item
    using Status_outer_list [OF assms(1)] that by auto
  have item_ok: "\<exists>y. Status_decode_item (PList [PBytes key, val]) = Inr y \<and>
      (map_of items_sedes key \<noteq> None \<longrightarrow> (\<exists>v. y = Some (key, v)))"
    if "PList [PBytes key, val] \<in> set data" for key val
  proof -
    from assms(2) that have ascii: "decode_ascii key = Inr key"
      and dec: "\<And>s. map_of items_sedes key = Some (Some s) \<Longrightarrow> \<exists>v. deserialize s val = Inr v"
      by (auto simp: decode_ascii_def)
    show ?thesis
    proof (cases "map_of items_sedes key")
      case None
      with ascii show ?thesis by (simp add: Status_decode_item_def)
    next
      case (Some c)
      show ?thesis
      proof (cases c)
        case None
        with Some ascii show ?thesis by (simp add: Status_decode_item_known)
      next
        case (Some s)
        with \<open>map_of items_sedes key = Some c\<close> dec obtain v where "deserialize s val = Inr v"
          by blast
        with Some \<open>map_of items_sedes key = Some c\<close> ascii show ?thesis
          by (simp add: Status_decode_item_known)
      qed
    qed
  qed
  have "\<exists>y. Status_decode_item item = Inr y" if "item \<in> set data" for item
    using shape [OF that] item_ok that by blast
  then obtain ps where ps: "Status_decode_pairs data = Inr ps"
    using Status_decode_pairs_ok [of data] by blast
  note set_ps = Status_decode_pairs_set [OF ps]
  let ?d = "to_dict ps"
  have res: "Status_decode_payload rlp_data = Inr ?d"
    using assms(1) ps by (simp add: Status_decode_payload_def)
  have entry: "\<exists>val. PList [PBytes k, val] \<in> set data \<and>
           ((map_of items_sedes k = Some None \<and> v = val) \<or>
            (\<exists>s. map_of items_sedes k = Some (Some s) \<and> deserialize s val = Inr v))"
    if "(k, v) \<in> set ps" for k v
  proof -
    from that set_ps obtain item where "item \<in> set data"
      "Status_decode_item item = Inr (Some (k, v))" by auto
    with Status_decode_item_key [of item k v] show ?thesis by auto
  qed
  have in_ps: "(k, v) \<in> set ps" if "(k, v) \<in> set ?d" for k v
    using that by (auto simp: to_dict_entry dest: map_of_SomeD)
  have unknown: "k \<notin> fst ` set ?d" if "map_of items_sedes k = None" for k
  proof
    assume "k \<in> fst ` set ?d"
    then have "k \<in> fst ` set ps" by (simp add: keys_to_dict)
    then obtain v where "(k, v) \<in> set ps" by auto
    from entry [OF this] that show False by auto
  qed
  have known: "key \<in> fst ` set ?d"
    if "PList [PBytes key, val] \<in> set data" and "map_of items_sedes key \<noteq> None" for key val
  proof -
    from item_ok [OF that(1)] that(2) obtain v where
      "Status_decode_item (PList [PBytes key, val]) = Inr (Some (key, v))" by auto
    with that(1) set_ps have "(key, v) \<in> set ps" by auto
    then have "key \<in> fst ` set ps" by force
    then show ?thesis by (simp add: keys_to_dict)
  qed
  from res unknown known entry in_ps show ?thesis by blast
qed

lemma ascii_unknown_keys_are_skipped_example:
  "Command_decode_payload Status
     ([CHR 0xE9, CHR 0xCA, CHR 0x87] @ ''headNum'' @ [CHR 0x81, CHR 0x96, CHR 0xCE, CHR 0x8C] @
      ''announceType'' @ [CHR 0x01, CHR 0xCE, CHR 0x8C] @ ''serveHeaders'' @ [CHR 0x80]) =
     Inr (MList [PList [PBytes ''headNum'', PBytes [CHR 0x96]],
                 PList [PBytes ''announceType'', PBytes [CHR 0x01]],
                 PList [PBytes ''serveHeaders'', PBytes []]]) \<and>
   map_of items_sedes ''announceType'' = None \<and>
   (\<exists>d. Status_decode_payload
      ([CHR 0xE9, CHR 0xCA, CHR 0x87] @ ''headNum'' @ [CHR 0x81, CHR 0x96, CHR 0xCE, CHR 0x8C] @
       ''announceType'' @ [CHR 0x01, CHR 0xCE, CHR 0x8C] @ ''serveHeaders'' @ [CHR 0x80]) = Inr d \<and>
      ''announceType'' \<notin> fst ` set d \<and> ''headNum'' \<in> fst ` set d \<and>
      ''serveHeaders'' \<in> fst ` set d)"
proof -
  let ?B = "[CHR 0xE9, CHR 0xCA, CHR 0x87] @ ''headNum'' @ [CHR 0x81, CHR 0x96, CHR 0xCE, CHR 0x8C] @
      ''announceType'' @ [CHR 0x01, CHR 0xCE, CHR 0x8C] @ ''serveHeaders'' @ [CHR 0x80]"
  let ?data = "[PList [PBytes ''headNum'', PBytes [CHR 0x96]],
                 PList [PBytes ''announceType'', PBytes [CHR 0x01]],
                 PList [PBytes ''serveHeaders'', PBytes []]]"
  have h1: "Command_decode_payload Status ?B = Inr (MList ?data)"
    by code_simp
  have h2: "\<forall>key val. PList [PBytes key, val] \<in> set ?data \<longrightarrow>
           list_all (\<lambda>c. (of_char c :: nat) < 128) key \<and>
           (\<forall>s. map_of items_sedes key = Some (Some s) \<longrightarrow> (\<exists>v. deserialize s val = Inr v))"
    by (auto simp: items_sedes_def)
  have h3: "map_of items_sedes ''announceType'' = None"
    "map_of items_sedes ''headNum'' \<noteq> None" "map_of items_sedes ''serveHeaders'' \<noteq> None"
    by (simp_all add: items_sedes_def)
  from ascii_unknown_keys_are_skipped [OF h1 h2] h3 h1 show ?thesis
    by (metis insert_iff list.simps(15))
qed

text \<open>
  Encoding followed by decoding, for the keys that have a codec: for every Negotiation
  mapping whose keys have a codec and whose values are in the type domain of that codec,
  encoding fails only on the size limit of the binary form, and decoding what it returns
  yields a dictionary equal to the mapping. For every message of Announce,
  GetBlockHeaders, BlockHeaders, GetBlockBodies or BlockBodies within the domain of its
  schema, the same holds of the command's payload.
\<close>

lemma codec_roundtrip:
  "(is_status d \<longrightarrow>
      (case Status_encode_payload d of
         Inl e \<Rightarrow> e = EncodingError
       | Inr bs \<Rightarrow> \<exists>d'. Status_decode_payload bs = Inr d' \<and> map_of d' = map_of d)) \<and>
   (c \<in> {Announce, GetBlockHeaders, BlockHeaders BlockHeader, GetBlockBodies,
          BlockBodies BaseTransaction BlockHeader} \<and> is_message c m \<longrightarrow>
      (case Command_encode_payload c (MDict m) of
         Inl e \<Rightarrow> e = EncodingError
       | Inr bs \<Rightarrow> \<exists>m'. Command_decode_payload c bs = Inr (MDict m') \<and> map_of m' = map_of m))"
proof (intro conjI impI)
  assume st: "is_status d"
  then have d: "distinct (map fst d)" by (simp add: is_status_def)
  have dom: "\<exists>s. map_of items_sedes k = Some (Some s) \<and> in_domain s v"
    if "(k, v) \<in> set d" for k v
  proof -
    from st that have "case map_of items_sedes k of
        Some (Some s) \<Rightarrow> in_domain s v | _ \<Rightarrow> False"
      by (auto simp: is_status_def list_all_iff)
    then show ?thesis by (cases "map_of items_sedes k") (auto split: option.splits)
  qed
  have "map_of (sort_key fst d) = map_of d"
    using d by (intro map_of_inject_set [THEN iffD2]) (simp_all add: distinct_map)
  with Status_roundtrip [OF d dom]
  show "case Status_encode_payload d of
         Inl e \<Rightarrow> e = EncodingError
       | Inr bs \<Rightarrow> \<exists>d'. Status_decode_payload bs = Inr d' \<and> map_of d' = map_of d"
    by (auto split: sum.splits)
next
  assume a: "c \<in> {Announce, GetBlockHeaders, BlockHeaders BlockHeader, GetBlockBodies,
          BlockBodies BaseTransaction BlockHeader} \<and> is_message c m"
  then obtain flds where "cmd_structure c = Fields flds" and "decode_strict c"
    by (auto simp: Announce_def GetBlockHeaders_def BlockHeaders_def GetBlockBodies_def
        BlockBodies_def)
  with a show "case Command_encode_payload c (MDict m) of
         Inl e \<Rightarrow> e = EncodingError
       | Inr bs \<Rightarrow> \<exists>m'. Command_decode_payload c bs = Inr (MDict m') \<and> map_of m' = map_of m"
    by (intro Command_roundtrip) auto
qed

lemma codec_roundtrip_example:
  "is_status
     [(''networkId'', PInt 1), (''headHash'', PBytes ''h''),
      (''flowControl/MRC'', PList [PList [PInt 1, PInt 2, PInt 300]])] \<and>
   (\<exists>bs d'. Status_encode_payload
       [(''networkId'', PInt 1), (''headHash'', PBytes ''h''),
      (''flowControl/MRC'', PList [PList [PInt 1, PInt 2, PInt 300]])] = Inr bs \<and>
      Status_decode_payload bs = Inr d' \<and>
      map_of d' = map_of
       [(''networkId'', PInt 1), (''headHash'', PBytes ''h''),
      (''flowControl/MRC'', PList [PList [PInt 1, PInt 2, PInt 300]])]) \<and>
   is_message GetBlockHeaders
     [(''query'', GetBlockHeadersQuery 100 192 0 True), (''request_id'', PInt 7)] \<and>
   (\<exists>bs m'. Command_encode_payload GetBlockHeaders
       (MDict [(''query'', GetBlockHeadersQuery 100 192 0 True), (''request_id'', PInt 7)]) =
       Inr bs \<and>
      Command_decode_payload GetBlockHeaders bs = Inr (MDict m') \<and>
      map_of m' =
        map_of [(''query'', GetBlockHeadersQuery 100 192 0 True), (''request_id'', PInt 7)])"
proof -
  let ?D = "[(''networkId'', PInt 1), (''headHash'', PBytes ''h''),
      (''flowControl/MRC'', PList [PList [PInt 1, PInt 2, PInt 300]])]"
  let ?M = "[(''query'', GetBlockHeadersQuery 100 192 0 True), (''request_id'', PInt 7)]"
  have h1: "is_status ?D" by code_simp
  have h2: "\<not> isl (Status_encode_payload ?D)" by code_simp
  have h3: "is_message GetBlockHeaders ?M" by code_simp
  have h4: "\<not> isl (Command_encode_payload GetBlockHeaders (MDict ?M))" by code_simp
  have h5: "GetBlockHeaders \<in> {Announce, GetBlockHeaders, BlockHeaders raw, GetBlockBodies,
          BlockBodies raw raw}" by simp
  note t = codec_roundtrip [where d = ?D and c = GetBlockHeaders and m = ?M
      and BlockHeader = raw and BaseTransaction = raw]
  from t h1 h2 have a: "\<exists>bs d'. Status_encode_payload ?D = Inr bs \<and>
      Status_decode_payload bs = Inr d' \<and> map_of d' = map_of ?D"
    by (cases "Status_encode_payload ?D") auto
  from t h3 h4 h5 have b: "\<exists>bs m'. Command_encode_payload GetBlockHeaders (MDict ?M) = Inr bs \<and>
      Command_decode_payload GetBlockHeaders bs = Inr (MDict m') \<and> map_of m' = map_of ?M"
    by (cases "Command_encode_payload GetBlockHeaders (MDict ?M)") auto
  from h1 a h3 b show ?thesis by blast
qed


section \<open>The claims\<close>

text \<open>
  C1 (as amended). \<open>process_handshake\<close> checks the network id first and the genesis hash
  second: a message whose networkId differs from the local one fails with
  \<open>HandshakeFailure(DisconnectReason.other)\<close>, whatever its genesisHash; a message whose
  networkId matches and whose genesisHash is a byte string that differs from the local
  genesis hash fails with the same \<open>HandshakeFailure(DisconnectReason.other)\<close>; a message
  where both match returns without error.
\<close>

theorem process_handshake_checks:
  "(getitem d ''networkId'' = Inr nid \<and> nid \<noteq> PInt (network_id p)
      \<longrightarrow> process_handshake p d = Inl (HandshakeFailure other)) \<and>
   (getitem d ''networkId'' = Inr (PInt (network_id p)) \<and>
    getitem d ''genesisHash'' = Inr (PBytes g) \<and> g \<noteq> genesis_hash p
      \<longrightarrow> process_handshake p d = Inl (HandshakeFailure other)) \<and>
   (getitem d ''networkId'' = Inr (PInt (network_id p)) \<and>
    getitem d ''genesisHash'' = Inr (PBytes (genesis_hash p))
      \<longrightarrow> process_handshake p d = Inr ())"
  by (simp add: process_handshake_def encode_hex_def)

theorem process_handshake_checks_witness:
  "process_handshake \<lparr>network_id = 1, genesis_hash = ''G''\<rparr>
     [(''networkId'', PInt 2), (''genesisHash'', PBytes ''G'')] = Inl (HandshakeFailure other) \<and>
   process_handshake \<lparr>network_id = 1, genesis_hash = ''G''\<rparr>
     [(''networkId'', PInt 1), (''genesisHash'', PBytes ''H'')] = Inl (HandshakeFailure other) \<and>
   process_handshake \<lparr>network_id = 1, genesis_hash = ''G''\<rparr>
     [(''networkId'', PInt 1), (''genesisHash'', PBytes ''G'')] = Inr ()"
  using
    process_handshake_checks [of "[(''networkId'', PInt 2), (''genesisHash'', PBytes ''G'')]"
      "PInt 2" "\<lparr>network_id = 1, genesis_hash = ''G''\<rparr>" "''G''"]
    process_handshake_checks [of "[(''networkId'', PInt 1), (''genesisHash'', PBytes ''H'')]"
      "PInt 1" "\<lparr>network_id = 1, genesis_hash = ''G''\<rparr>" "''H''"]
    process_handshake_checks [of "[(''networkId'', PInt 1), (''genesisHash'', PBytes ''G'')]"
      "PInt 1" "\<lparr>network_id = 1, genesis_hash = ''G''\<rparr>" "''G''"]
  by (simp add: getitem_def)

text \<open>
  C1 as stated fails: the failure on a network mismatch and the failure on a genesis
  mismatch are the same exception, whose reason is \<open>other\<close>, not NetworkMismatch and
  not GenesisMismatch.
\<close>

theorem process_handshake_reason_counterexample:
  "process_handshake \<lparr>network_id = 1, genesis_hash = ''G''\<rparr>
     [(''networkId'', PInt 2), (''genesisHash'', PBytes ''G'')] =
     Inl (HandshakeFailure other) \<and>
   process_handshake \<lparr>network_id = 1, genesis_hash = ''G''\<rparr>
     [(''networkId'', PInt 1), (''genesisHash'', PBytes ''H'')] =
     Inl (HandshakeFailure other) \<and>
   process_handshake \<lparr>network_id = 1, genesis_hash = ''G''\<rparr>
     [(''networkId'', PInt 2), (''genesisHash'', PBytes ''G'')]
     \<noteq> Inl (HandshakeFailure NetworkMismatch) \<and>
   process_handshake \<lparr>network_id = 1, genesis_hash = ''G''\<rparr>
     [(''networkId'', PInt 1), (''genesisHash'', PBytes ''H'')]
     \<noteq> Inl (HandshakeFailure GenesisMismatch)"
  by (simp add: process_handshake_def getitem_def encode_hex_def)

text \<open>
  C5. Head-summary extraction raises nothing on a message that has the fields it reads:
  on a Negotiation message with headNum, headHash and headTd it returns these three and
  \<open>reorg_depth = 0\<close>; on an Announce message it returns head_number, head_hash, head_td
  and reorg_depth as they are in the message, and every message that the Announce
  command decodes has these four fields.
\<close>

theorem as_head_info_fields:
  "(getitem d ''headNum'' = Inr n \<and> getitem d ''headHash'' = Inr h \<and>
    getitem d ''headTd'' = Inr td
      \<longrightarrow> Status_as_head_info d =
          Inr \<lparr>block_number = n, block_hash = h, total_difficulty = td,
               reorg_depth = PInt 0\<rparr>) \<and>
   (getitem a ''head_number'' = Inr n' \<and> getitem a ''head_hash'' = Inr h' \<and>
    getitem a ''head_td'' = Inr td' \<and> getitem a ''reorg_depth'' = Inr r
      \<longrightarrow> Announce_as_head_info a =
          Inr \<lparr>block_number = n', block_hash = h', total_difficulty = td',
               reorg_depth = r\<rparr>) \<and>
   (Command_decode_payload Announce rlp_data = Inr (MDict a)
      \<longrightarrow> (\<exists>n' h' td' r.
            getitem a ''head_number'' = Inr n' \<and> getitem a ''head_hash'' = Inr h' \<and>
            getitem a ''head_td'' = Inr td' \<and> getitem a ''reorg_depth'' = Inr r \<and>
            Announce_as_head_info a =
              Inr \<lparr>block_number = n', block_hash = h', total_difficulty = td',
                   reorg_depth = r\<rparr>))"
proof (intro conjI impI)
  assume "Command_decode_payload Announce rlp_data = Inr (MDict a)"
  from Announce_decoded [OF this] obtain h n td r ps where
    "a = [(''head_hash'', h), (''head_number'', n), (''head_td'', td),
           (''reorg_depth'', r), (''params'', ps)]"
    by auto
  then show "\<exists>n' h' td' r.
            getitem a ''head_number'' = Inr n' \<and> getitem a ''head_hash'' = Inr h' \<and>
            getitem a ''head_td'' = Inr td' \<and> getitem a ''reorg_depth'' = Inr r \<and>
            Announce_as_head_info a =
              Inr \<lparr>block_number = n', block_hash = h', total_difficulty = td',
                   reorg_depth = r\<rparr>"
    by (simp add: getitem_def Announce_as_head_info_def)
qed (simp_all add: Status_as_head_info_def Announce_as_head_info_def)

theorem as_head_info_fields_witness:
  "Status_as_head_info
     [(''networkId'', PInt 1), (''headTd'', PInt 5000), (''headHash'', PBytes ''h''),
      (''headNum'', PInt 150)] =
     Inr \<lparr>block_number = PInt 150, block_hash = PBytes ''h'', total_difficulty = PInt 5000,
          reorg_depth = PInt 0\<rparr> \<and>
   Command_decode_payload Announce [CHR 0xC5, CHR ''h'', CHR 0x07, CHR 0x09, CHR 0x03, CHR 0xC0] =
     Inr (MDict [(''head_hash'', PBytes ''h''), (''head_number'', PInt 7), (''head_td'', PInt 9),
                 (''reorg_depth'', PInt 3), (''params'', PList [])]) \<and>
   Announce_as_head_info
     [(''head_hash'', PBytes ''h''), (''head_number'', PInt 7), (''head_td'', PInt 9),
      (''reorg_depth'', PInt 3), (''params'', PList [])] =
     Inr \<lparr>block_number = PInt 7, block_hash = PBytes ''h'', total_difficulty = PInt 9,
          reorg_depth = PInt 3\<rparr>"
proof -
  have h: "Command_decode_payload Announce
      [CHR 0xC5, CHR ''h'', CHR 0x07, CHR 0x09, CHR 0x03, CHR 0xC0] =
     Inr (MDict [(''head_hash'', PBytes ''h''), (''head_number'', PInt 7), (''head_td'', PInt 9),
                 (''reorg_depth'', PInt 3), (''params'', PList [])])"
    by code_simp
  from h as_head_info_fields
    [of "[(''networkId'', PInt 1), (''headTd'', PInt 5000), (''headHash'', PBytes ''h''),
          (''headNum'', PInt 150)]" "PInt 150" "PBytes ''h''" "PInt 5000"
        "[(''head_hash'', PBytes ''h''), (''head_number'', PInt 7), (''head_td'', PInt 9),
          (''reorg_depth'', PInt 3), (''params'', PList [])]" "PInt 7" "PBytes ''h''"
        "PInt 9" "PInt 3"
        "[CHR 0xC5, CHR ''h'', CHR 0x07, CHR 0x09, CHR 0x03, CHR 0xC0]"]
  show ?thesis by (simp add: getitem_def)
qed

text \<open>
  C4. Two dictionaries that are equal as mappings, their keys in any two orders, encode
  to the same result: the same bytes, or the same exception.
\<close>

theorem Status_encoding_canonical:
  "distinct (map fst d1) \<Longrightarrow> distinct (map fst d2) \<Longrightarrow> map_of d1 = map_of d2 \<Longrightarrow>
     Status_encode_payload d1 = Status_encode_payload d2"
  using sort_key_fst_unique [of d1 d2] by (simp add: Status_encode_payload_def)

theorem Status_encoding_canonical_witness:
  "distinct (map fst [(''networkId'', PInt 1), (''headNum'', PInt 150)]) \<and>
   distinct (map fst [(''headNum'', PInt 150), (''networkId'', PInt 1)]) \<and>
   map_of [(''networkId'', PInt 1), (''headNum'', PInt 150)] =
     map_of [(''headNum'', PInt 150), (''networkId'', PInt 1)] \<and>
   Status_encode_payload [(''networkId'', PInt 1), (''headNum'', PInt 150)] =
     Status_encode_payload [(''headNum'', PInt 150), (''networkId'', PInt 1)] \<and>
   Status_encode_payload [(''headNum'', PInt 150), (''networkId'', PInt 1)] =
     Inr ([CHR 0xD7, CHR 0xCA, CHR 0x87] @ ''headNum'' @ [CHR 0x81, CHR 0x96, CHR 0xCB, CHR 0x89] @
          ''networkId'' @ [CHR 0x01])"
proof -
  have d1: "distinct (map fst [(''networkId'', PInt 1), (''headNum'', PInt 150)])"
    and d2: "distinct (map fst [(''headNum'', PInt 150), (''networkId'', PInt 1)])"
    by simp_all
  have m: "map_of [(''networkId'', PInt 1), (''headNum'', PInt 150)] =
     map_of [(''headNum'', PInt 150), (''networkId'', PInt 1)]"
    by (subst map_of_inject_set [OF d1 d2]) auto
  have bytes: "Status_encode_payload [(''headNum'', PInt 150), (''networkId'', PInt 1)] =
     Inr ([CHR 0xD7, CHR 0xCA, CHR 0x87] @ ''headNum'' @ [CHR 0x81, CHR 0x96, CHR 0xCB, CHR 0x89] @
          ''networkId'' @ [CHR 0x01])"
    by code_simp
  from Status_encoding_canonical [OF d1 d2 m] d1 d2 m bytes show ?thesis by blast
qed

text \<open>
  C7 (as amended). A mapping that has a key absent from the known-key table fails to
  encode, and nothing is handed to the transport. The exception is the \<open>KeyError\<close> of
  that key when every smaller key of the mapping is a known key with a codec that takes
  its value; it is the \<open>SerializationError\<close> of the codec when a smaller key of the
  mapping is a known key whose codec rejects its value and every key smaller than that one
  is a known key with a codec that takes its value.
\<close>

theorem unknown_key_encoding_fails:
  "(k \<in> fst ` set data \<and> map_of items_sedes k = None
      \<longrightarrow> (\<exists>e. Status_encode_payload data = Inl e \<and>
               send p (Command_encode Status offset (Status_encode_payload data)) = Inl e)) \<and>
   (distinct (map fst data) \<and> (k, v) \<in> set data \<and> map_of items_sedes k = None \<and>
    (\<forall>(k', v') \<in> set data. k' < k \<longrightarrow>
        (\<exists>s t. map_of items_sedes k' = Some (Some s) \<and> serialize s v' = Inr t))
      \<longrightarrow> Status_encode_payload data = Inl (KeyError k) \<and>
          send p (Command_encode Status offset (Status_encode_payload data)) = Inl (KeyError k)) \<and>
   (distinct (map fst data) \<and> (k, v) \<in> set data \<and> map_of items_sedes k = None \<and>
    (k1, v1) \<in> set data \<and> k1 < k \<and>
    map_of items_sedes k1 = Some (Some s1) \<and> serialize s1 v1 = Inl e1 \<and>
    (\<forall>(k', v') \<in> set data. k' < k1 \<longrightarrow>
        (\<exists>s t. map_of items_sedes k' = Some (Some s) \<and> serialize s v' = Inr t))
      \<longrightarrow> Status_encode_payload data = Inl SerializationError \<and>
          send p (Command_encode Status offset (Status_encode_payload data)) =
            Inl SerializationError)"
proof (intro conjI impI)
  assume a: "k \<in> fst ` set data \<and> map_of items_sedes k = None"
  show "\<exists>e. Status_encode_payload data = Inl e \<and>
          send p (Command_encode Status offset (Status_encode_payload data)) = Inl e"
  proof (cases "Status_encode_payload data")
    case (Inl e)
    then show ?thesis by (simp add: send_def Command_encode_def)
  next
    case (Inr bs)
    from a obtain v where "(k, v) \<in> set data" by auto
    from Status_encode_payload_Inr [OF Inr this] a show ?thesis by simp
  qed
next
  assume a: "distinct (map fst data) \<and> (k, v) \<in> set data \<and> map_of items_sedes k = None \<and>
    (\<forall>(k', v') \<in> set data. k' < k \<longrightarrow>
        (\<exists>s t. map_of items_sedes k' = Some (Some s) \<and> serialize s v' = Inr t))"
  then have "Status_encode_payload data = Inl (KeyError k)"
    by (intro Status_encode_payload_first_unknown [of data k v]) auto
  then show "Status_encode_payload data = Inl (KeyError k)"
    and "send p (Command_encode Status offset (Status_encode_payload data)) = Inl (KeyError k)"
    by (simp_all add: send_def Command_encode_def)
next
  assume a: "distinct (map fst data) \<and> (k, v) \<in> set data \<and> map_of items_sedes k = None \<and>
    (k1, v1) \<in> set data \<and> k1 < k \<and>
    map_of items_sedes k1 = Some (Some s1) \<and> serialize s1 v1 = Inl e1 \<and>
    (\<forall>(k', v') \<in> set data. k' < k1 \<longrightarrow>
        (\<exists>s t. map_of items_sedes k' = Some (Some s) \<and> serialize s v' = Inr t))"
  then have "Status_encode_payload data = Inl SerializationError"
    by (intro Status_encode_payload_first_rejected [of data k1 v1 s1 e1]) auto
  then show "Status_encode_payload data = Inl SerializationError"
    and "send p (Command_encode Status offset (Status_encode_payload data)) =
            Inl SerializationError"
    by (simp_all add: send_def Command_encode_def)
qed

theorem unknown_key_encoding_fails_witness:
  "Status_encode_payload [(''zzz'', PInt 0), (''networkId'', PInt 1)] = Inl (KeyError ''zzz'') \<and>
   send \<lparr>cmd_id_offset = 16, peer = \<lparr>network_id = 1, genesis_hash = ''G''\<rparr>, sent = []\<rparr>
     (Command_encode Status 16
        (Status_encode_payload [(''zzz'', PInt 0), (''networkId'', PInt 1)])) =
     Inl (KeyError ''zzz'') \<and>
   Status_encode_payload [(''zzz'', PInt 0), (''headNum'', PInt (- 5))] =
     Inl SerializationError \<and>
   send \<lparr>cmd_id_offset = 16, peer = \<lparr>network_id = 1, genesis_hash = ''G''\<rparr>, sent = []\<rparr>
     (Command_encode Status 16
        (Status_encode_payload [(''zzz'', PInt 0), (''headNum'', PInt (- 5))])) =
     Inl SerializationError"
  using unknown_key_encoding_fails
    [where k = "''zzz''" and data = "[(''zzz'', PInt 0), (''networkId'', PInt 1)]"
       and p = "\<lparr>cmd_id_offset = 16, peer = \<lparr>network_id = 1, genesis_hash = ''G''\<rparr>, sent = []\<rparr>"
       and offset = 16 and v = "PInt 0"]
    unknown_key_encoding_fails
    [where k = "''zzz''" and data = "[(''zzz'', PInt 0), (''headNum'', PInt (- 5))]"
       and p = "\<lparr>cmd_id_offset = 16, peer = \<lparr>network_id = 1, genesis_hash = ''G''\<rparr>, sent = []\<rparr>"
       and offset = 16 and v = "PInt 0" and ?k1.0 = "''headNum''" and ?v1.0 = "PInt (- 5)"
       and ?s1.0 = big_endian_int and ?e1.0 = SerializationError]
  by (simp add: items_sedes_def send_def Command_encode_def)

text \<open>
  C7 as stated fails: with an unknown key in the mapping, the exception is that of the
  first key in sorted order that does not encode, here the \<open>SerializationError\<close> of a
  negative networkId, which sorts before the unknown key.
\<close>

theorem unknown_key_other_error_counterexample:
  "''zzz'' \<in> fst ` set [(''zzz'', PInt 0), (''networkId'', PInt (- 1))] \<and>
   map_of items_sedes ''zzz'' = None \<and>
   Status_encode_payload [(''zzz'', PInt 0), (''networkId'', PInt (- 1))] =
     Inl SerializationError \<and>
   Status_encode_payload [(''zzz'', PInt 0), (''networkId'', PInt (- 1))] \<noteq>
     Inl (KeyError ''zzz'')"
  by (simp add: Status_encode_payload_def items_sedes_def)

text \<open>
  C9. The flag keys serveHeaders and txRelay are in the known-key table with the entry
  \<open>None\<close>, so every mapping that has one of them fails to encode (with
  \<open>AttributeError\<close> when the flag is the only key); yet decoding accepts a flag and
  yields its raw value.
\<close>

theorem flags_cannot_be_encoded:
  "map_of items_sedes ''serveHeaders'' = Some None \<and>
   map_of items_sedes ''txRelay'' = Some None \<and>
   (''serveHeaders'' \<in> fst ` set data \<or> ''txRelay'' \<in> fst ` set data
      \<longrightarrow> (\<exists>e. Status_encode_payload data = Inl e)) \<and>
   Status_encode_payload [(''serveHeaders'', v)] = Inl AttributeError \<and>
   Status_encode_payload [(''txRelay'', v)] = Inl AttributeError \<and>
   Status_decode_item (PList [PBytes ''serveHeaders'', v]) = Inr (Some (''serveHeaders'', v)) \<and>
   Status_decode_item (PList [PBytes ''txRelay'', v]) = Inr (Some (''txRelay'', v))"
proof -
  have flags: "map_of items_sedes ''serveHeaders'' = Some None"
    "map_of items_sedes ''txRelay'' = Some None"
    by (simp_all add: items_sedes_def)
  have "\<exists>e. Status_encode_payload data = Inl e"
    if "k \<in> fst ` set data" and "map_of items_sedes k = Some None" for k
  proof (cases "Status_encode_payload data")
    case (Inl e)
    then show ?thesis by blast
  next
    case (Inr bs)
    from that(1) obtain v where "(k, v) \<in> set data" by auto
    from Status_encode_payload_Inr [OF Inr this] that(2) show ?thesis by simp
  qed
  with flags show ?thesis
    by (auto simp: Status_encode_payload_def Status_decode_item_def decode_ascii_def)
qed

theorem flags_cannot_be_encoded_witness:
  "''txRelay'' \<in> fst ` set [(''networkId'', PInt 1), (''txRelay'', PBytes [])] \<and>
   (\<exists>e. Status_encode_payload [(''networkId'', PInt 1), (''txRelay'', PBytes [])] = Inl e)"
  using flags_cannot_be_encoded [of "[(''networkId'', PInt 1), (''txRelay'', PBytes [])]"]
  by simp

text \<open>
  C3. Decoding a Negotiation payload that has an unknown key does not always succeed.
  The bytes C4 C3 81 E9 01 are a well-formed outer list of one pair, of the key E9 and the
  value 01; the key is absent from the known-key table, and \<open>decode_payload\<close> raises
  \<open>UnicodeDecodeError\<close> on them instead of skipping the pair, because it decodes the key
  as ASCII before it looks the key up.
\<close>

theorem unknown_non_ascii_key_raises:
  "Command_decode_payload Status [CHR 0xC4, CHR 0xC3, CHR 0x81, CHR 0xE9, CHR 0x01] =
     Inr (MList [PList [PBytes [CHR 0xE9], PBytes [CHR 0x01]]]) \<and>
   map_of items_sedes [CHR 0xE9] = None \<and>
   Status_decode_payload [CHR 0xC4, CHR 0xC3, CHR 0x81, CHR 0xE9, CHR 0x01] =
     Inl UnicodeDecodeError"
proof -
  have "Command_decode_payload Status [CHR 0xC4, CHR 0xC3, CHR 0x81, CHR 0xE9, CHR 0x01] =
     Inr (MList [PList [PBytes [CHR 0xE9], PBytes [CHR 0x01]]])"
    by code_simp
  moreover have "map_of items_sedes [CHR 0xE9] = None"
    by (simp add: items_sedes_def)
  moreover have "Status_decode_payload [CHR 0xC4, CHR 0xC3, CHR 0x81, CHR 0xE9, CHR 0x01] =
     Inl UnicodeDecodeError"
    by code_simp
  ultimately show ?thesis by blast
qed

text \<open>
  C8. A pair of the outer list whose key is not ASCII makes the loop body raise
  \<open>UnicodeDecodeError\<close>, whatever the key and the table are: decoding fails, and with
  this exception when the pairs before it decode.
\<close>

theorem non_ascii_key_fails:
  assumes "Command_decode_payload Status rlp_data = Inr (MList data)"
    and "PList [PBytes key, val] \<in> set data"
    and "\<not> list_all (\<lambda>c. (of_char c :: nat) < 128) key"
  shows "Status_decode_item (PList [PBytes key, val]) = Inl UnicodeDecodeError \<and>
    (\<exists>e. Status_decode_payload rlp_data = Inl e) \<and>
    (\<forall>pre post ps. data = pre @ PList [PBytes key, val] # post \<and>
        Status_decode_pairs pre = Inr ps
        \<longrightarrow> Status_decode_payload rlp_data = Inl UnicodeDecodeError)"
proof -
  have item: "Status_decode_item (PList [PBytes key, val]) = Inl UnicodeDecodeError"
    using assms(3) by (simp add: Status_decode_item_def decode_ascii_def)
  from Status_decode_pairs_fails [OF assms(2) item]
  have "\<exists>e. Status_decode_payload rlp_data = Inl e"
    using assms(1) by (auto simp: Status_decode_payload_def)
  moreover have "Status_decode_payload rlp_data = Inl UnicodeDecodeError"
    if "data = pre @ PList [PBytes key, val] # post" and "Status_decode_pairs pre = Inr ps"
    for pre post ps
    using that assms(1) item
    by (simp add: Status_decode_payload_def Status_decode_pairs_append)
  ultimately show ?thesis using item by blast
qed

theorem non_ascii_key_fails_witness:
  "Command_decode_payload Status [CHR 0xc4, CHR 0xc3, CHR 0x81, CHR 0xff, CHR 0x80] =
     Inr (MList [PList [PBytes [CHR 0xff], PBytes []]]) \<and>
   PList [PBytes [CHR 0xff], PBytes []] \<in> set [PList [PBytes [CHR 0xff], PBytes []]] \<and>
   \<not> list_all (\<lambda>c. (of_char c :: nat) < 128) [CHR 0xff] \<and>
   map_of items_sedes [CHR 0xff] = None \<and>
   Status_decode_payload [CHR 0xc4, CHR 0xc3, CHR 0x81, CHR 0xff, CHR 0x80] =
     Inl UnicodeDecodeError"
proof -
  have h1: "Command_decode_payload Status [CHR 0xc4, CHR 0xc3, CHR 0x81, CHR 0xff, CHR 0x80] =
     Inr (MList [PList [PBytes [CHR 0xff], PBytes []]])"
    by code_simp
  have h2: "PList [PBytes [CHR 0xff], PBytes []] \<in> set [PList [PBytes [CHR 0xff], PBytes []]]"
    by simp
  have h3: "\<not> list_all (\<lambda>c. (of_char c :: nat) < 128) [CHR 0xff]"
    by simp
  have h4: "map_of items_sedes [CHR 0xff] = None"
    by (simp add: items_sedes_def)
  from non_ascii_key_fails [OF h1 h2 h3]
  have "[PList [PBytes [CHR 0xff], PBytes []]] = [] @ PList [PBytes [CHR 0xff], PBytes []] # [] \<and>
      Status_decode_pairs [] = Inr []
      \<longrightarrow> Status_decode_payload [CHR 0xc4, CHR 0xc3, CHR 0x81, CHR 0xff, CHR 0x80] =
          Inl UnicodeDecodeError"
    by blast
  then have "Status_decode_payload [CHR 0xc4, CHR 0xc3, CHR 0x81, CHR 0xff, CHR 0x80] =
     Inl UnicodeDecodeError"
    by simp
  with h1 h2 h3 h4 show ?thesis by blast
qed


text \<open>
  C10 (as amended). When a known key occurs in the outer list, once or more, and every
  pair of the list decodes (the value of the key's last occurrence by the key's codec),
  decoding succeeds and the result maps the key to the decoded value of its last
  occurrence.
\<close>

theorem last_occurrence_wins:
  assumes "Command_decode_payload Status rlp_data =
             Inr (MList (pre @ PList [PBytes key, val] # post))"
    and "\<forall>item \<in> set (pre @ post). \<exists>y. Status_decode_item item = Inr y"
    and "decode_ascii key = Inr k" and "map_of items_sedes k = Some c"
    and "(case c of None \<Rightarrow> Inr val | Some s \<Rightarrow> deserialize s val) = Inr v"
    and "\<forall>val'. PList [PBytes key, val'] \<notin> set post"
  shows "\<exists>d. Status_decode_payload rlp_data = Inr d \<and> getitem d k = Inr v"
proof -
  have item: "Status_decode_item (PList [PBytes key, val]) = Inr (Some (k, v))"
    using assms(3,4,5) by (cases c) (auto simp: Status_decode_item_known split: sum.splits)
  from assms(2) obtain ps where ps: "Status_decode_pairs pre = Inr ps"
    using Status_decode_pairs_ok [of pre] by auto
  from assms(2) obtain qs where qs: "Status_decode_pairs post = Inr qs"
    using Status_decode_pairs_ok [of post] by auto
  have "k \<notin> fst ` set qs"
  proof
    assume "k \<in> fst ` set qs"
    then obtain v' where "(k, v') \<in> set qs" by auto
    with Status_decode_pairs_set [OF qs] obtain it where
      "it \<in> set post" "Status_decode_item it = Inr (Some (k, v'))" by auto
    with Status_decode_item_key obtain val' where "PList [PBytes k, val'] \<in> set post"
      by blast
    with assms(6) decode_ascii_Inr [OF assms(3)] show False by simp
  qed
  then have "getitem (to_dict (ps @ (k, v) # qs)) k = Inr v"
    by (rule getitem_to_dict_last)
  moreover have "Status_decode_payload rlp_data = Inr (to_dict (ps @ (k, v) # qs))"
    using assms(1) ps qs item
    by (simp add: Status_decode_payload_def Status_decode_pairs_append)
  ultimately show ?thesis by blast
qed

theorem last_occurrence_wins_witness:
  "Command_decode_payload Status
     ([CHR 0xDE, CHR 0xCB, CHR 0x89] @ ''networkId'' @ [CHR 0x01, CHR 0xC5, CHR 0x83] @
      ''zzzx'' @ [CHR 0xCB, CHR 0x89] @ ''networkId'' @ [CHR 0x02]) =
     Inr (MList ([PList [PBytes ''networkId'', PBytes [CHR 0x01]],
                  PList [PBytes ''zzz'', PBytes ''x'']] @
                 PList [PBytes ''networkId'', PBytes [CHR 0x02]] # [])) \<and>
   (\<exists>d. Status_decode_payload
      ([CHR 0xDE, CHR 0xCB, CHR 0x89] @ ''networkId'' @ [CHR 0x01, CHR 0xC5, CHR 0x83] @
       ''zzzx'' @ [CHR 0xCB, CHR 0x89] @ ''networkId'' @ [CHR 0x02]) = Inr d \<and>
      getitem d ''networkId'' = Inr (PInt 2))"
proof -
  let ?B = "[CHR 0xDE, CHR 0xCB, CHR 0x89] @ ''networkId'' @ [CHR 0x01, CHR 0xC5, CHR 0x83] @
      ''zzzx'' @ [CHR 0xCB, CHR 0x89] @ ''networkId'' @ [CHR 0x02]"
  let ?pre = "[PList [PBytes ''networkId'', PBytes [CHR 0x01]],
               PList [PBytes ''zzz'', PBytes ''x'']]"
  have h1: "Command_decode_payload Status ?B =
      Inr (MList (?pre @ PList [PBytes ''networkId'', PBytes [CHR 0x02]] # []))"
    by code_simp
  have h2: "\<forall>item \<in> set (?pre @ []). \<exists>y. Status_decode_item item = Inr y"
    by (simp add: Status_decode_item_def decode_ascii_def items_sedes_def big_endian_to_int_def)
  have h3: "decode_ascii ''networkId'' = Inr ''networkId''"
    by (simp add: decode_ascii_def)
  have h4: "map_of items_sedes ''networkId'' = Some (Some big_endian_int)"
    by (simp add: items_sedes_def)
  have h5: "(case Some big_endian_int of None \<Rightarrow> Inr (PBytes [CHR 0x02])
             | Some s \<Rightarrow> deserialize s (PBytes [CHR 0x02])) = Inr (PInt 2)"
    by (simp add: big_endian_to_int_def)
  have h6: "\<forall>val'. PList [PBytes ''networkId'', val'] \<notin> set []"
    by simp
  from last_occurrence_wins [OF h1 h2 h3 h4 h5 h6] h1 show ?thesis by blast
qed

text \<open>
  C10 as stated fails: of two pairs of the known key networkId, the first has the value
  00, which the integer codec rejects because of its leading zero, and the second the
  value 01; decoding raises \<open>DeserializationError\<close> at the first pair and never reaches
  the last occurrence.
\<close>

theorem duplicate_key_bad_value_counterexample:
  "Command_decode_payload Status
     ([CHR 0xD8, CHR 0xCB, CHR 0x89] @ ''networkId'' @ [CHR 0x00, CHR 0xCB, CHR 0x89] @
      ''networkId'' @ [CHR 0x01]) =
     Inr (MList [PList [PBytes ''networkId'', PBytes [CHR 0x00]],
                 PList [PBytes ''networkId'', PBytes [CHR 0x01]]]) \<and>
   map_of items_sedes ''networkId'' = Some (Some big_endian_int) \<and>
   deserialize big_endian_int (PBytes [CHR 0x01]) = Inr (PInt 1) \<and>
   Status_decode_payload
     ([CHR 0xD8, CHR 0xCB, CHR 0x89] @ ''networkId'' @ [CHR 0x00, CHR 0xCB, CHR 0x89] @
      ''networkId'' @ [CHR 0x01]) =
     Inl DeserializationError"
proof -
  have "Command_decode_payload Status
     ([CHR 0xD8, CHR 0xCB, CHR 0x89] @ ''networkId'' @ [CHR 0x00, CHR 0xCB, CHR 0x89] @
      ''networkId'' @ [CHR 0x01]) =
     Inr (MList [PList [PBytes ''networkId'', PBytes [CHR 0x00]],
                 PList [PBytes ''networkId'', PBytes [CHR 0x01]]])"
    by code_simp
  moreover have "map_of items_sedes ''networkId'' = Some (Some big_endian_int)"
    by (simp add: items_sedes_def)
  moreover have "deserialize big_endian_int (PBytes [CHR 0x01]) = Inr (PInt 1)"
    by code_simp
  moreover have "Status_decode_payload
     ([CHR 0xD8, CHR 0xCB, CHR 0x89] @ ''networkId'' @ [CHR 0x00, CHR 0xCB, CHR 0x89] @
      ''networkId'' @ [CHR 0x01]) =
     Inl DeserializationError"
    by code_simp
  ultimately show ?thesis by blast
qed

text \<open>
  C6. Encoding followed by decoding does not give the value back for every known key.
  The flag serveHeaders is a known key; the bytes CF CE 8C serveHeaders 80 decode to the
  mapping of serveHeaders to the empty byte string, and encoding that mapping raises
  \<open>AttributeError\<close>: \<open>encode_payload\<close> calls \<open>serialize\<close> on the table entry
  \<open>None\<close>, which \<open>decode_payload\<close> tests for.
\<close>

theorem flag_does_not_round_trip:
  "map_of items_sedes ''serveHeaders'' = Some None \<and>
   Status_decode_payload ([CHR 0xCF, CHR 0xCE, CHR 0x8C] @ ''serveHeaders'' @ [CHR 0x80]) =
     Inr [(''serveHeaders'', PBytes [])] \<and>
   Status_encode_payload [(''serveHeaders'', PBytes [])] = Inl AttributeError"
proof -
  have "map_of items_sedes ''serveHeaders'' = Some None"
    by (simp add: items_sedes_def)
  moreover have
    "Status_decode_payload ([CHR 0xCF, CHR 0xCE, CHR 0x8C] @ ''serveHeaders'' @ [CHR 0x80]) =
       Inr [(''serveHeaders'', PBytes [])]"
    by code_simp
  moreover have "Status_encode_payload [(''serveHeaders'', PBytes [])] = Inl AttributeError"
    by (simp add: Status_encode_payload_def items_sedes_def)
  ultimately show ?thesis by blast
qed




end
